theory Spec2Isabelle
  imports Main "HOL-Library.Word"
begin

unbundle bit_operations_syntax

section \<open>Data model of ECS.h\<close>

text \<open>
  \<^verbatim>\<open>unsigned int\<close> is a 32-bit word: \<open>+\<close> wraps around, \<open>unat\<close> reads it.
  A \<^verbatim>\<open>std::bitset<MAX_COMPONENTS>\<close> is a 32-bit word as well, bit \<open>i\<close> of the
  bitset being bit \<open>i\<close> of the word. A C++ type used as a template argument
  (a component kind \<^verbatim>\<open>T\<close>, a system kind \<^verbatim>\<open>TSystem\<close>) is named by a natural number.
\<close>

type_synonym uint = "32 word"
type_synonym Signature = "32 word"
type_synonym kind = nat

definition MAX_COMPONENTS :: nat where
  "MAX_COMPONENTS = 32"

text \<open>
  What a call can end in instead of returning: \<open>OutOfRange\<close> is the exception
  \<^verbatim>\<open>std::out_of_range\<close> that \<^verbatim>\<open>std::bitset::set\<close> throws for a position past the
  width; \<open>UndefinedBehaviour\<close> stands for an unchecked access the C++ standard gives
  no meaning to (a vector index past the size, a null \<^verbatim>\<open>shared_ptr\<close> dereferenced,
  the end iterator of a map dereferenced or erased); \<open>AssertionFailure\<close> is a failed
  \<^verbatim>\<open>assert\<close> or an abort. ECS.h contains no assertion, so no function below returns
  the last one.
\<close>

datatype error = OutOfRange | UndefinedBehaviour | AssertionFailure

subsection \<open>Component identity\<close>

text \<open>
  \<^verbatim>\<open>IComponent::nextId\<close> is one counter for the whole process;
  \<^verbatim>\<open>Component<T>::GetId\<close> holds a function-local static \<^verbatim>\<open>id\<close> per kind \<^verbatim>\<open>T\<close>,
  initialised by \<^verbatim>\<open>nextId++\<close> the first time control passes through it.
  \<open>ids g T = None\<close> says that the static of kind \<open>T\<close> is not initialised yet.
\<close>

record IComponent =
  nextId :: uint
  ids :: "kind \<Rightarrow> uint option"

definition GetId :: "kind \<Rightarrow> IComponent \<Rightarrow> uint \<times> IComponent" where
  "GetId T g =
     (case ids g T of
        Some i \<Rightarrow> (i, g)
      | None \<Rightarrow> (nextId g, g\<lparr>nextId := nextId g + 1, ids := (ids g)(T \<mapsto> nextId g)\<rparr>))"

text \<open>
  Modelled from the spec: the definition of \<^verbatim>\<open>IComponent::nextId\<close> (its initial value)
  is not in ECS.h; the spec says that ids are allocated "starting at 0".
\<close>

definition initial_ids :: IComponent where
  "initial_ids = \<lparr>nextId = 0, ids = (\<lambda>_. None)\<rparr>"

text \<open>A run of the process as far as ids are concerned: the kinds asked for, in order.\<close>

fun GetId_run :: "kind list \<Rightarrow> IComponent \<Rightarrow> uint list \<times> IComponent" where
  "GetId_run [] g = ([], g)"
| "GetId_run (T # Ts) g =
     (let (i, g') = GetId T g; (is, g'') = GetId_run Ts g' in (i # is, g''))"

subsection \<open>Signatures\<close>

text \<open>
  \<^verbatim>\<open>std::bitset<32>::set(pos, val)\<close> and \<^verbatim>\<open>test(pos)\<close> check the position and throw
  \<^verbatim>\<open>std::out_of_range\<close> when it is not below the width.
\<close>

definition bitset_set :: "nat \<Rightarrow> bool \<Rightarrow> Signature \<Rightarrow> error + Signature" where
  "bitset_set pos val s =
     (if MAX_COMPONENTS \<le> pos then Inl OutOfRange
      else Inr (if val then set_bit pos s else unset_bit pos s))"

definition bitset_test :: "nat \<Rightarrow> Signature \<Rightarrow> error + bool" where
  "bitset_test pos s = (if MAX_COMPONENTS \<le> pos then Inl OutOfRange else Inr (bit s pos))"

subsection \<open>Entities and systems\<close>

text \<open>
  An \<^verbatim>\<open>Entity\<close> is compared, ordered and stored by its \<^verbatim>\<open>id\<close> alone, so it is
  modelled by that id. Its \<^verbatim>\<open>registry\<close> back pointer is not modelled: the registry an
  operation works on is passed to it explicitly.
\<close>

type_synonym Entity = uint

record System =
  componentSignature :: Signature
  entities :: "Entity list"

text \<open>\<^verbatim>\<open>System() = default\<close>: no bit set, no entity.\<close>

definition System_default :: System where
  "System_default = \<lparr>componentSignature = 0, entities = []\<rparr>"

definition RequireComponent :: "kind \<Rightarrow> IComponent \<Rightarrow> System \<Rightarrow> error + IComponent \<times> System" where
  "RequireComponent T g s =
     (let (componentId, g') = GetId T g in
      case bitset_set (unat componentId) True (componentSignature s) of
        Inl err \<Rightarrow> Inl err
      | Inr sg \<Rightarrow> Inr (g', s\<lparr>componentSignature := sg\<rparr>))"

text \<open>
  The constructor of a concrete system declares its component kinds one after the other:
  \<^verbatim>\<open>RequireComponent<T1>(); RequireComponent<T2>(); ...\<close>
\<close>

fun RequireComponents :: "kind list \<Rightarrow> IComponent \<Rightarrow> System \<Rightarrow> error + IComponent \<times> System" where
  "RequireComponents [] g s = Inr (g, s)"
| "RequireComponents (T # Ts) g s =
     (case RequireComponent T g s of
        Inl err \<Rightarrow> Inl err
      | Inr (g', s') \<Rightarrow> RequireComponents Ts g' s')"

text \<open>
  Modelled from the spec: the bodies of \<^verbatim>\<open>System::AddEntityToSystem\<close> and
  \<^verbatim>\<open>System::RemoveEntityFromSystem\<close> are missing (ECS.h only declares them). The spec:
  "insert/erase e from matchedEntities; both must be idempotent (adding an
  already-present entity or removing an absent one is a no-op, not an error)". The list
  is the \<^verbatim>\<open>std::vector<Entity>\<close> that ECS.h declares.
\<close>

definition AddEntityToSystem :: "Entity \<Rightarrow> System \<Rightarrow> System" where
  "AddEntityToSystem entity s =
     (if entity \<in> set (entities s) then s else s\<lparr>entities := entities s @ [entity]\<rparr>)"

definition RemoveEntityFromSystem :: "Entity \<Rightarrow> System \<Rightarrow> System" where
  "RemoveEntityFromSystem entity s = s\<lparr>entities := removeAll entity (entities s)\<rparr>"

subsection \<open>Pools\<close>

text \<open>
  \<^verbatim>\<open>std::vector::resize(n, d)\<close> cuts the vector to its first \<open>n\<close> elements or appends
  copies of \<open>d\<close> up to size \<open>n\<close>. A \<^verbatim>\<open>Pool<T>\<close> is its \<^verbatim>\<open>data\<close> vector; \<open>dflt\<close>
  stands for the value-initialised \<^verbatim>\<open>T()\<close> that \<^verbatim>\<open>data.resize(n)\<close> appends.
\<close>

definition vector_resize :: "nat \<Rightarrow> 'a \<Rightarrow> 'a list \<Rightarrow> 'a list" where
  "vector_resize n d xs =
     (if n \<le> length xs then take n xs else xs @ replicate (n - length xs) d)"

type_synonym 'c Pool = "'c list"

definition Pool_new :: "'c \<Rightarrow> 'c Pool" where
  "Pool_new dflt = vector_resize 100 dflt []"

definition Pool_GetSize :: "'c Pool \<Rightarrow> uint" where
  "Pool_GetSize p = of_nat (length p)"

definition Pool_Resize :: "'c \<Rightarrow> uint \<Rightarrow> 'c Pool \<Rightarrow> 'c Pool" where
  "Pool_Resize dflt n p = vector_resize (unat n) dflt p"

definition Pool_Set :: "uint \<Rightarrow> 'c \<Rightarrow> 'c Pool \<Rightarrow> error + 'c Pool" where
  "Pool_Set index object p =
     (if unat index < length p then Inr (p[unat index := object]) else Inl UndefinedBehaviour)"

definition Pool_Get :: "uint \<Rightarrow> 'c Pool \<Rightarrow> error + 'c" where
  "Pool_Get index p =
     (if unat index < length p then Inr (p ! unat index) else Inl UndefinedBehaviour)"

subsection \<open>The registry\<close>

text \<open>
  A \<^verbatim>\<open>std::set<Entity>\<close> is a list kept strictly ascending; a null
  \<^verbatim>\<open>shared_ptr<IPool>\<close> is \<open>None\<close>; the \<^verbatim>\<open>unordered_map\<close> of systems is a map from
  the system kind, \<open>None\<close> being what \<^verbatim>\<open>find\<close> answers with \<^verbatim>\<open>end()\<close>. All pools
  hold values of one type \<open>'c\<close>, which can be a sum of the component types.
\<close>

record 'c Registry =
  numEntities :: uint
  entitiesToBeAdded :: "Entity list"
  entitiesToBeKilled :: "Entity list"
  componentPools :: "'c Pool option list"
  entityComponentSignatures :: "Signature list"
  systems :: "kind \<Rightarrow> System option"

definition Registry_new :: "'c Registry" where
  "Registry_new =
     \<lparr>numEntities = 0, entitiesToBeAdded = [], entitiesToBeKilled = [],
      componentPools = [], entityComponentSignatures = [], systems = (\<lambda>_. None)\<rparr>"

definition set_insert :: "Entity \<Rightarrow> Entity list \<Rightarrow> Entity list" where
  "set_insert e xs = (if e \<in> set xs then xs else insort e xs)"

definition AddSystem :: "kind \<Rightarrow> System \<Rightarrow> 'c Registry \<Rightarrow> 'c Registry" where
  "AddSystem TSystem newSystem r =
     (case systems r TSystem of
        None \<Rightarrow> r\<lparr>systems := (systems r)(TSystem \<mapsto> newSystem)\<rparr>
      | Some _ \<Rightarrow> r)"

definition RemoveSystem :: "kind \<Rightarrow> 'c Registry \<Rightarrow> error + 'c Registry" where
  "RemoveSystem TSystem r =
     (case systems r TSystem of
        None \<Rightarrow> Inl UndefinedBehaviour
      | Some _ \<Rightarrow> Inr (r\<lparr>systems := (systems r)(TSystem := None)\<rparr>))"

definition HasSystem :: "kind \<Rightarrow> 'c Registry \<Rightarrow> bool" where
  "HasSystem TSystem r = (systems r TSystem \<noteq> None)"

definition GetSystem :: "kind \<Rightarrow> 'c Registry \<Rightarrow> error + System" where
  "GetSystem TSystem r =
     (case systems r TSystem of
        None \<Rightarrow> Inl UndefinedBehaviour
      | Some s \<Rightarrow> Inr s)"

definition AddComponent ::
  "kind \<Rightarrow> 'c \<Rightarrow> Entity \<Rightarrow> 'c \<Rightarrow> IComponent \<Rightarrow> 'c Registry \<Rightarrow> error + IComponent \<times> 'c Registry" where
  "AddComponent T dflt entity newComponent g r =
     (let (componentId, g') = GetId T g;
          entityId = entity;
          pools = (if length (componentPools r) \<le> unat componentId
                   then vector_resize (unat (componentId + 1)) None (componentPools r)
                   else componentPools r)
      in if length pools \<le> unat componentId then Inl UndefinedBehaviour
         else
           let componentPool = (case pools ! unat componentId of
                                  None \<Rightarrow> Pool_new dflt
                                | Some p \<Rightarrow> p);
               componentPool = (if Pool_GetSize componentPool \<le> entityId
                                then Pool_Resize dflt (numEntities r) componentPool
                                else componentPool)
           in case Pool_Set entityId newComponent componentPool of
                Inl err \<Rightarrow> Inl err
              | Inr componentPool \<Rightarrow>
                  if length (entityComponentSignatures r) \<le> unat entityId
                  then Inl UndefinedBehaviour
                  else
                    (case bitset_set (unat componentId) True
                            (entityComponentSignatures r ! unat entityId) of
                       Inl err \<Rightarrow> Inl err
                     | Inr sg \<Rightarrow>
                         Inr (g', r\<lparr>componentPools := pools[unat componentId := Some componentPool],
                                    entityComponentSignatures :=
                                      (entityComponentSignatures r)[unat entityId := sg]\<rparr>)))"

text \<open>
  The first part of \<^verbatim>\<open>AddComponent\<close>, up to and including the call of \<^verbatim>\<open>Resize\<close>
  (ECS.h:170-189): the pool of the kind as it is when the write of line 193 begins. In
  C++ the pool is resized in place, so this is the registry's pool from then on, also
  when the write that follows is out of bounds.
\<close>

definition AddComponent_resized ::
  "kind \<Rightarrow> 'c \<Rightarrow> Entity \<Rightarrow> IComponent \<Rightarrow> 'c Registry \<Rightarrow> error + 'c Pool" where
  "AddComponent_resized T dflt entity g r =
     (let (componentId, g') = GetId T g;
          entityId = entity;
          pools = (if length (componentPools r) \<le> unat componentId
                   then vector_resize (unat (componentId + 1)) None (componentPools r)
                   else componentPools r)
      in if length pools \<le> unat componentId then Inl UndefinedBehaviour
         else
           let componentPool = (case pools ! unat componentId of
                                  None \<Rightarrow> Pool_new dflt
                                | Some p \<Rightarrow> p);
               componentPool = (if Pool_GetSize componentPool \<le> entityId
                                then Pool_Resize dflt (numEntities r) componentPool
                                else componentPool)
           in Inr componentPool)"

definition RemoveComponent ::
  "kind \<Rightarrow> Entity \<Rightarrow> IComponent \<Rightarrow> 'c Registry \<Rightarrow> error + IComponent \<times> 'c Registry" where
  "RemoveComponent T entity g r =
     (let (componentId, g') = GetId T g;
          entityId = entity
      in if length (entityComponentSignatures r) \<le> unat entityId then Inl UndefinedBehaviour
         else
           (case bitset_set (unat componentId) False
                   (entityComponentSignatures r ! unat entityId) of
              Inl err \<Rightarrow> Inl err
            | Inr sg \<Rightarrow>
                Inr (g', r\<lparr>entityComponentSignatures :=
                             (entityComponentSignatures r)[unat entityId := sg]\<rparr>)))"

definition GetComponent ::
  "kind \<Rightarrow> Entity \<Rightarrow> IComponent \<Rightarrow> 'c Registry \<Rightarrow> error + IComponent \<times> 'c" where
  "GetComponent T entity g r =
     (let (componentId, g') = GetId T g;
          entityId = entity
      in if length (componentPools r) \<le> unat componentId then Inl UndefinedBehaviour
         else
           (case componentPools r ! unat componentId of
              None \<Rightarrow> Inl UndefinedBehaviour
            | Some componentPool \<Rightarrow>
                (case Pool_Get entityId componentPool of
                   Inl err \<Rightarrow> Inl err
                 | Inr c \<Rightarrow> Inr (g', c))))"

text \<open>
  Modelled from the spec: the body of \<^verbatim>\<open>Registry::HasComponent\<close> is missing (ECS.h
  only declares it). The spec: precondition "e.id valid", effect "none (read-only)",
  "returns bit test" of bit \<open>IdOf(T)\<close> of \<open>perEntitySignature[e.id]\<close>.
\<close>

definition HasComponent ::
  "kind \<Rightarrow> Entity \<Rightarrow> IComponent \<Rightarrow> 'c Registry \<Rightarrow> error + IComponent \<times> bool" where
  "HasComponent T entity g r =
     (let (componentId, g') = GetId T g;
          entityId = entity
      in if length (entityComponentSignatures r) \<le> unat entityId then Inl UndefinedBehaviour
         else
           (case bitset_test (unat componentId) (entityComponentSignatures r ! unat entityId) of
              Inl err \<Rightarrow> Inl err
            | Inr b \<Rightarrow> Inr (g', b)))"

text \<open>
  Modelled from the spec: the body of \<^verbatim>\<open>Registry::CreateEntity\<close> is missing. The spec:
  "allocate id = entityCount++; grow perEntitySignature; enqueue id into toAdd".
\<close>

definition CreateEntity :: "'c Registry \<Rightarrow> Entity \<times> 'c Registry" where
  "CreateEntity r =
     (let entityId = numEntities r
      in (entityId,
          r\<lparr>numEntities := numEntities r + 1,
            entitiesToBeAdded := set_insert entityId (entitiesToBeAdded r),
            entityComponentSignatures :=
              (if length (entityComponentSignatures r) \<le> unat entityId
               then vector_resize (unat entityId + 1) 0 (entityComponentSignatures r)
               else entityComponentSignatures r)\<rparr>))"

text \<open>
  Modelled from the spec: ECS.h declares the queue \<^verbatim>\<open>entitiesToBeKilled\<close> and no
  operation that fills it. The spec speaks of "enqueuing a kill" into \<open>toKill\<close>.
\<close>

definition KillEntity :: "Entity \<Rightarrow> 'c Registry \<Rightarrow> 'c Registry" where
  "KillEntity entity r = r\<lparr>entitiesToBeKilled := set_insert entity (entitiesToBeKilled r)\<rparr>"

text \<open>
  Modelled from the spec: the body of \<^verbatim>\<open>Registry::AddEntityToSystems\<close> is missing. The
  spec: precondition "e.id valid"; "for every registered system, if
  (perEntitySignature[e.id] & system.requiredSignature) == system.requiredSignature, call
  system.AddEntityToSystem(e)".
\<close>

definition AddEntityToSystems :: "Entity \<Rightarrow> 'c Registry \<Rightarrow> error + 'c Registry" where
  "AddEntityToSystems entity r =
     (if length (entityComponentSignatures r) \<le> unat entity then Inl UndefinedBehaviour
      else
        let entityComponentSignature = entityComponentSignatures r ! unat entity
        in Inr (r\<lparr>systems := (\<lambda>k.
                  case systems r k of
                    None \<Rightarrow> None
                  | Some s \<Rightarrow>
                      Some (if entityComponentSignature AND componentSignature s = componentSignature s
                            then AddEntityToSystem entity s else s))\<rparr>))"

text \<open>
  Modelled from the spec: the body of \<^verbatim>\<open>Registry::Update\<close> is missing. The spec: "for
  each e in toAdd: call AddEntityToSystems(e); clear toAdd. For each e in toKill: for
  every system, call RemoveEntityFromSystem(e); clear toKill".
\<close>

fun AddEntitiesToSystems :: "Entity list \<Rightarrow> 'c Registry \<Rightarrow> error + 'c Registry" where
  "AddEntitiesToSystems [] r = Inr r"
| "AddEntitiesToSystems (e # es) r =
     (case AddEntityToSystems e r of
        Inl err \<Rightarrow> Inl err
      | Inr r' \<Rightarrow> AddEntitiesToSystems es r')"

definition RemoveEntityFromSystems :: "Entity \<Rightarrow> 'c Registry \<Rightarrow> 'c Registry" where
  "RemoveEntityFromSystems entity r =
     r\<lparr>systems := (\<lambda>k. case systems r k of
                          None \<Rightarrow> None
                        | Some s \<Rightarrow> Some (RemoveEntityFromSystem entity s))\<rparr>"

fun RemoveEntitiesFromSystems :: "Entity list \<Rightarrow> 'c Registry \<Rightarrow> 'c Registry" where
  "RemoveEntitiesFromSystems [] r = r"
| "RemoveEntitiesFromSystems (e # es) r = RemoveEntitiesFromSystems es (RemoveEntityFromSystems e r)"

definition Update :: "'c Registry \<Rightarrow> error + 'c Registry" where
  "Update r =
     (case AddEntitiesToSystems (entitiesToBeAdded r) r of
        Inl err \<Rightarrow> Inl err
      | Inr r1 \<Rightarrow>
          let r2 = r1\<lparr>entitiesToBeAdded := []\<rparr>;
              r3 = RemoveEntitiesFromSystems (entitiesToBeKilled r2) r2
          in Inr (r3\<lparr>entitiesToBeKilled := []\<rparr>))"

subsection \<open>Runs of registry operations\<close>

text \<open>
  What a client of the registry can do, one call after the other. \<open>AddSystemOp K Ts\<close> is
  \<^verbatim>\<open>AddSystem<K>()\<close> for a system kind \<open>K\<close> whose constructor requires the component
  kinds \<open>Ts\<close> in that order: \<^verbatim>\<open>make_shared<K>()\<close> runs the constructor, then the new
  instance is handed to the map.
\<close>

datatype 'c operation =
    CreateEntityOp
  | AddComponentOp kind 'c Entity 'c
  | RemoveComponentOp kind Entity
  | AddSystemOp kind "kind list"
  | RemoveSystemOp kind
  | KillEntityOp Entity
  | AddEntityToSystemsOp Entity
  | UpdateOp

fun apply_operation ::
  "'c operation \<Rightarrow> IComponent \<times> 'c Registry \<Rightarrow> error + IComponent \<times> 'c Registry" where
  "apply_operation CreateEntityOp (g, r) = Inr (g, snd (CreateEntity r))"
| "apply_operation (AddComponentOp T dflt e c) (g, r) = AddComponent T dflt e c g r"
| "apply_operation (RemoveComponentOp T e) (g, r) = RemoveComponent T e g r"
| "apply_operation (AddSystemOp K Ts) (g, r) =
     (case RequireComponents Ts g System_default of
        Inl err \<Rightarrow> Inl err
      | Inr (g', s) \<Rightarrow> Inr (g', AddSystem K s r))"
| "apply_operation (RemoveSystemOp K) (g, r) =
     (case RemoveSystem K r of Inl err \<Rightarrow> Inl err | Inr r' \<Rightarrow> Inr (g, r'))"
| "apply_operation (KillEntityOp e) (g, r) = Inr (g, KillEntity e r)"
| "apply_operation (AddEntityToSystemsOp e) (g, r) =
     (case AddEntityToSystems e r of Inl err \<Rightarrow> Inl err | Inr r' \<Rightarrow> Inr (g, r'))"
| "apply_operation UpdateOp (g, r) =
     (case Update r of Inl err \<Rightarrow> Inl err | Inr r' \<Rightarrow> Inr (g, r'))"

fun run ::
  "'c operation list \<Rightarrow> IComponent \<times> 'c Registry \<Rightarrow> error + IComponent \<times> 'c Registry" where
  "run [] st = Inr st"
| "run (x # xs) st =
     (case apply_operation x st of Inl err \<Rightarrow> Inl err | Inr st' \<Rightarrow> run xs st')"

subsection \<open>Predicates used in the statements\<close>

text \<open>The ids handed out so far are counted by \<open>nextId\<close>.\<close>

definition ids_counted :: "IComponent \<Rightarrow> bool" where
  "ids_counted g \<longleftrightarrow> finite (dom (ids g)) \<and> nextId g = of_nat (card (dom (ids g)))"

text \<open>
  The ids handed out so far are below \<open>nextId\<close> and no two kinds share one: what holds
  as long as the 32-bit counter has not wrapped around.
\<close>

definition ids_wf :: "IComponent \<Rightarrow> bool" where
  "ids_wf g \<longleftrightarrow>
     (\<forall>T i. ids g T = Some i \<longrightarrow> i < nextId g) \<and>
     (\<forall>T U i. ids g T = Some i \<and> ids g U = Some i \<longrightarrow> T = U)"

text \<open>The entity's id was handed out by the registry and has a signature slot.\<close>

definition entity_valid :: "Entity \<Rightarrow> 'c Registry \<Rightarrow> bool" where
  "entity_valid e r \<longleftrightarrow> e < numEntities r \<and> unat e < length (entityComponentSignatures r)"

text \<open>
  Every pool's size fits \<^verbatim>\<open>unsigned int\<close>, so that \<^verbatim>\<open>GetSize\<close> reports it exactly.
\<close>

definition pools_ok :: "'c Registry \<Rightarrow> bool" where
  "pools_ok r \<longleftrightarrow> (\<forall>p. Some p \<in> set (componentPools r) \<longrightarrow> length p < 2 ^ 32)"

text \<open>From \<open>r\<close> to \<open>r'\<close> no pool has disappeared or become shorter.\<close>

definition pools_grow :: "'c Registry \<Rightarrow> 'c Registry \<Rightarrow> bool" where
  "pools_grow r r' \<longleftrightarrow>
     length (componentPools r) \<le> length (componentPools r') \<and>
     (\<forall>c p. c < length (componentPools r) \<and> componentPools r ! c = Some p \<longrightarrow>
        (\<exists>q. componentPools r' ! c = Some q \<and> length p \<le> length q))"

text \<open>The test \<^verbatim>\<open>(entitySignature & systemSignature) == systemSignature\<close>.\<close>

definition matches :: "Signature \<Rightarrow> System \<Rightarrow> bool" where
  "matches sg s \<longleftrightarrow> sg AND componentSignature s = componentSignature s"

section \<open>Component identity\<close>

lemma GetId_ids_self: "GetId T g = (i, g') \<Longrightarrow> ids g' T = Some i"
  by (auto simp: GetId_def split: option.splits)

lemma GetId_ids_mono: "GetId T g = (i, g') \<Longrightarrow> ids g U = Some j \<Longrightarrow> ids g' U = Some j"
  by (auto simp: GetId_def split: option.splits)

lemma GetId_dom: "GetId T g = (i, g') \<Longrightarrow> dom (ids g') = insert T (dom (ids g))"
  by (auto simp: GetId_def split: option.splits)

lemma GetId_counted:
  assumes "GetId T g = (i, g')" and "ids_counted g"
  shows "ids_counted g'"
proof (cases "ids g T")
  case None
  then have "T \<notin> dom (ids g)" by auto
  with assms(2) have "card (insert T (dom (ids g))) = Suc (card (dom (ids g)))"
    by (simp add: ids_counted_def)
  moreover from None assms(1)
  have "g' = g\<lparr>nextId := nextId g + 1, ids := (ids g)(T \<mapsto> nextId g)\<rparr>"
    by (auto simp: GetId_def)
  ultimately show ?thesis using assms(2) by (simp add: ids_counted_def)
next
  case (Some j)
  with assms show ?thesis by (simp add: GetId_def)
qed

lemma initial_counted: "ids_counted initial_ids"
  by (simp add: ids_counted_def initial_ids_def)

lemma GetId_run_length: "GetId_run Ts g = (js, g') \<Longrightarrow> length js = length Ts"
  by (induction Ts arbitrary: g js g') (auto split: prod.splits)

lemma GetId_run_ids_mono:
  "GetId_run Ts g = (js, g') \<Longrightarrow> ids g U = Some j \<Longrightarrow> ids g' U = Some j"
proof (induction Ts arbitrary: g js g')
  case Nil
  then show ?case by simp
next
  case (Cons T Ts)
  then show ?case
    by (auto split: prod.splits dest: GetId_ids_mono)
qed

lemma GetId_run_nth:
  "GetId_run Ts g = (js, g') \<Longrightarrow> n < length Ts \<Longrightarrow> ids g' (Ts ! n) = Some (js ! n)"
proof (induction Ts arbitrary: g js g' n)
  case Nil
  then show ?case by simp
next
  case (Cons T Ts)
  obtain i g1 where h1: "GetId T g = (i, g1)" by (cases "GetId T g")
  obtain ks g2 where h2: "GetId_run Ts g1 = (ks, g2)" by (cases "GetId_run Ts g1")
  from Cons.prems h1 h2 have js: "js = i # ks" and g': "g' = g2" by auto
  show ?case
  proof (cases n)
    case 0
    from GetId_ids_self [OF h1] GetId_run_ids_mono [OF h2] show ?thesis
      by (simp add: 0 js g')
  next
    case (Suc m)
    with Cons.prems have "m < length Ts" by simp
    from Cons.IH [OF h2 this] show ?thesis by (simp add: Suc js g')
  qed
qed

lemma GetId_run_first:
  "GetId_run Ts g = (js, g') \<Longrightarrow> ids_counted g \<Longrightarrow> n < length Ts \<Longrightarrow>
   Ts ! n \<notin> set (take n Ts) \<Longrightarrow> Ts ! n \<notin> dom (ids g) \<Longrightarrow>
   js ! n = of_nat (card (dom (ids g) \<union> set (take n Ts)))"
proof (induction Ts arbitrary: g js g' n)
  case Nil
  then show ?case by simp
next
  case (Cons T Ts)
  obtain i g1 where h1: "GetId T g = (i, g1)" by (cases "GetId T g")
  obtain ks g2 where h2: "GetId_run Ts g1 = (ks, g2)" by (cases "GetId_run Ts g1")
  from Cons.prems(1) h1 h2 have js: "js = i # ks" and g': "g' = g2" by auto
  show ?case
  proof (cases n)
    case 0
    with Cons.prems have "ids g T = None" by auto
    with h1 have "i = nextId g" by (simp add: GetId_def)
    with Cons.prems(2) show ?thesis by (simp add: 0 js ids_counted_def)
  next
    case (Suc m)
    with Cons.prems have m: "m < length Ts" "Ts ! m \<notin> set (take m Ts)" "Ts ! m \<noteq> T"
      "Ts ! m \<notin> dom (ids g)" by auto
    have d: "dom (ids g1) = insert T (dom (ids g))" by (rule GetId_dom [OF h1])
    with m have "Ts ! m \<notin> dom (ids g1)" by simp
    from Cons.IH [OF h2 GetId_counted [OF h1 Cons.prems(2)] m(1) m(2) this]
    show ?thesis by (simp add: Suc js d)
  qed
qed

lemma GetId_run_dom: "GetId_run Ts g = (js, g') \<Longrightarrow> dom (ids g') = dom (ids g) \<union> set Ts"
proof (induction Ts arbitrary: g js g')
  case Nil
  then show ?case by simp
next
  case (Cons T Ts)
  obtain i g1 where h1: "GetId T g = (i, g1)" by (cases "GetId T g")
  obtain ks g2 where h2: "GetId_run Ts g1 = (ks, g2)" by (cases "GetId_run Ts g1")
  from Cons.prems h1 h2 have g': "g' = g2" by auto
  from Cons.IH [OF h2] GetId_dom [OF h1] show ?case by (simp add: g')
qed

lemma GetId_run_counted: "GetId_run Ts g = (js, g') \<Longrightarrow> ids_counted g \<Longrightarrow> ids_counted g'"
proof (induction Ts arbitrary: g js g')
  case Nil
  then show ?case by simp
next
  case (Cons T Ts)
  obtain i g1 where h1: "GetId T g = (i, g1)" by (cases "GetId T g")
  obtain ks g2 where h2: "GetId_run Ts g1 = (ks, g2)" by (cases "GetId_run Ts g1")
  from Cons.prems h1 h2 have g': "g' = g2" by auto
  from Cons.IH [OF h2 GetId_counted [OF h1 Cons.prems(2)]] show ?case by (simp add: g')
qed

lemma GetId_run_distinct:
  assumes "distinct Ts"
  shows "fst (GetId_run Ts initial_ids) = map of_nat [0..<length Ts]"
proof -
  obtain js g' where h: "GetId_run Ts initial_ids = (js, g')"
    by (cases "GetId_run Ts initial_ids")
  have len: "length js = length Ts" by (rule GetId_run_length [OF h])
  have "js ! n = of_nat n" if n: "n < length Ts" for n
  proof -
    from assms n have fresh: "Ts ! n \<notin> set (take n Ts)"
      by (metis id_take_nth_drop distinct_append disjoint_iff list.set_intros(1))
    from assms have "card (set (take n Ts)) = length (take n Ts)"
      by (simp add: distinct_card)
    with n GetId_run_first [OF h initial_counted n fresh] show ?thesis
      by (simp add: initial_ids_def)
  qed
  with len have "js = map of_nat [0..<length Ts]"
    by (intro nth_equalityI) simp_all
  then show ?thesis by (simp add: h)
qed

lemma RequireComponent_past_width:
  assumes "distinct Ts" and "T \<notin> set Ts" and "MAX_COMPONENTS \<le> length Ts"
    and "length Ts < 2 ^ 32"
  shows "RequireComponent T (snd (GetId_run Ts initial_ids)) s = Inl OutOfRange"
proof -
  obtain js g' where h: "GetId_run Ts initial_ids = (js, g')"
    by (cases "GetId_run Ts initial_ids")
  have d: "dom (ids g') = set Ts"
    using GetId_run_dom [OF h] by (simp add: initial_ids_def)
  from GetId_run_counted [OF h initial_counted] d assms(1)
  have n: "nextId g' = of_nat (length Ts)"
    by (simp add: ids_counted_def distinct_card)
  from d assms(2) have "ids g' T = None" by auto
  then have "fst (GetId T g') = nextId g'" by (simp add: GetId_def)
  moreover from assms(4) have "unat (of_nat (length Ts) :: uint) = length Ts"
    by (simp add: unat_of_nat)
  ultimately show ?thesis using assms(3) n
    by (auto simp: RequireComponent_def h bitset_set_def split: prod.splits)
qed

text \<open>
  C5. Within one run every request for the id of a kind is answered with the same
  unsigned number: whenever the kinds asked for at positions \<open>m\<close> and \<open>n\<close> of a run are
  the same kind, the two answers are equal. A kind asked for the first time gets the
  next id in sequence, counted from 0: the number of distinct kinds asked for before it.
\<close>

theorem GetId_stable_sequential:
  "(\<forall>m n. m < length Ts \<and> n < length Ts \<and> Ts ! m = Ts ! n \<longrightarrow>
      fst (GetId_run Ts initial_ids) ! m = fst (GetId_run Ts initial_ids) ! n) \<and>
   (\<forall>n. n < length Ts \<and> Ts ! n \<notin> set (take n Ts) \<longrightarrow>
      fst (GetId_run Ts initial_ids) ! n = of_nat (card (set (take n Ts)))) \<and>
   length (fst (GetId_run Ts initial_ids)) = length Ts"
proof -
  obtain js g' where h: "GetId_run Ts initial_ids = (js, g')"
    by (cases "GetId_run Ts initial_ids")
  have a: "js ! m = js ! n" if "m < length Ts" "n < length Ts" "Ts ! m = Ts ! n" for m n
    using GetId_run_nth [OF h that(1)] GetId_run_nth [OF h that(2)] that(3) by simp
  have b: "js ! n = of_nat (card (set (take n Ts)))"
    if "n < length Ts" "Ts ! n \<notin> set (take n Ts)" for n
    using GetId_run_first [OF h initial_counted that] by (simp add: initial_ids_def)
  have c: "length js = length Ts" by (rule GetId_run_length [OF h])
  show ?thesis unfolding h fst_conv using a b c by blast
qed

theorem GetId_stable_sequential_witness:
  "fst (GetId_run [7, 4, 7, 9] initial_ids) ! 0 = fst (GetId_run [7, 4, 7, 9] initial_ids) ! 2 \<and>
   fst (GetId_run [7, 4, 7, 9] initial_ids) ! 3 = 2"
proof -
  have c: "word_of_nat (card (set (take 3 [7, 4, 7, 9 :: nat]))) = (2 :: uint)"
    by (simp add: card_insert_if)
  have "fst (GetId_run [7, 4, 7, 9] initial_ids) ! 0 = fst (GetId_run [7, 4, 7, 9] initial_ids) ! 2"
    by (rule GetId_stable_sequential [THEN conjunct1, rule_format]) simp
  moreover have "fst (GetId_run [7, 4, 7, 9] initial_ids) ! 3 =
      word_of_nat (card (set (take 3 [7, 4, 7, 9 :: nat])))"
    by (rule GetId_stable_sequential [THEN conjunct2, THEN conjunct1, rule_format]) simp
  ultimately show ?thesis unfolding c by (rule conjI)
qed

text \<open>
  C6, as the claim states it, fails: \<^verbatim>\<open>GetId\<close> checks nothing. When 33 distinct kinds ask
  for their id, the last one is answered with 32.
\<close>

theorem GetId_past_width_counterexample:
  "fst (GetId_run [0..<33] initial_ids) ! 32 = 32"
  using GetId_run_distinct [of "[0..<33]"] by simp

text \<open>
  C6, amended. Asking for the ids of more than 32 distinct kinds does not fail: distinct
  kinds are answered with 0, 1, 2, ... without an upper bound other than the width of
  \<^verbatim>\<open>unsigned int\<close>. The bound \<open>MAX_COMPONENTS\<close> is met where such an id is used as a
  position of a signature: once at least 32 kinds have their ids, \<^verbatim>\<open>RequireComponent\<close>
  of a further kind ends in \<^verbatim>\<open>std::out_of_range\<close>.
\<close>

theorem GetId_unchecked:
  "(distinct Ts \<longrightarrow> fst (GetId_run Ts initial_ids) = map of_nat [0..<length Ts]) \<and>
   (distinct Ts \<and> T \<notin> set Ts \<and> MAX_COMPONENTS \<le> length Ts \<and> length Ts < 2 ^ 32 \<longrightarrow>
      RequireComponent T (snd (GetId_run Ts initial_ids)) s = Inl OutOfRange)"
  using GetId_run_distinct [of Ts] RequireComponent_past_width [of Ts T s] by blast

theorem GetId_unchecked_witness:
  "fst (GetId_run [0..<40] initial_ids) = map of_nat [0..<40] \<and>
   RequireComponent 40 (snd (GetId_run [0..<40] initial_ids)) System_default = Inl OutOfRange"
  using GetId_unchecked [of "[0..<40]" 40 System_default]
  by (simp add: MAX_COMPONENTS_def)

section \<open>The map of systems\<close>

text \<open>
  C8, as the claim states it, fails: \<^verbatim>\<open>GetSystem\<close> dereferences what \<^verbatim>\<open>find\<close> returned
  without comparing it with \<^verbatim>\<open>end()\<close>, and no assertion guards it. On a fresh registry,
  where no system is registered, the call is undefined behaviour, not an assertion
  failure or an abort.
\<close>

theorem GetSystem_absent_counterexample:
  "\<not> HasSystem 0 (Registry_new :: unit Registry) \<and>
   GetSystem 0 (Registry_new :: unit Registry) = Inl UndefinedBehaviour \<and>
   GetSystem 0 (Registry_new :: unit Registry) \<noteq> Inl AssertionFailure"
  by (simp add: HasSystem_def GetSystem_def Registry_new_def)

text \<open>
  C8, amended. \<^verbatim>\<open>GetSystem<S>()\<close> without a registered system of kind \<open>S\<close> is an
  unguarded dereference of the end iterator (undefined behaviour; nothing asserts or
  aborts). With a system of kind \<open>S\<close> registered it returns the one instance the map
  holds for \<open>S\<close>; after \<^verbatim>\<open>AddSystem<S>\<close> on a registry without \<open>S\<close> that is the new
  instance.
\<close>

theorem GetSystem_unguarded:
  "(\<not> HasSystem S r \<longrightarrow> GetSystem S r = Inl UndefinedBehaviour) \<and>
   (HasSystem S r \<longrightarrow> (\<exists>s. systems r S = Some s \<and> GetSystem S r = Inr s)) \<and>
   (\<not> HasSystem S r \<longrightarrow> GetSystem S (AddSystem S new r) = Inr new)"
  by (auto simp: HasSystem_def GetSystem_def AddSystem_def)

theorem GetSystem_unguarded_witness:
  "GetSystem 3 (Registry_new :: unit Registry) = Inl UndefinedBehaviour \<and>
   GetSystem 3 (AddSystem 3 System_default (Registry_new :: unit Registry)) = Inr System_default \<and>
   (\<exists>s. systems (AddSystem 3 System_default (Registry_new :: unit Registry)) 3 = Some s \<and>
        GetSystem 3 (AddSystem 3 System_default (Registry_new :: unit Registry)) = Inr s)"
proof -
  have a: "\<not> HasSystem 3 (Registry_new :: unit Registry)"
    by (simp add: HasSystem_def Registry_new_def)
  have b: "HasSystem 3 (AddSystem 3 System_default (Registry_new :: unit Registry))"
    by (simp add: HasSystem_def AddSystem_def Registry_new_def)
  from a b GetSystem_unguarded [of 3 "Registry_new :: unit Registry" System_default]
    GetSystem_unguarded [of 3 "AddSystem 3 System_default (Registry_new :: unit Registry)" System_default]
  show ?thesis by blast
qed

text \<open>
  C9. \<^verbatim>\<open>AddSystem<S>\<close> while a system of kind \<open>S\<close> is registered leaves the registry as
  it is (\<^verbatim>\<open>unordered_map::insert\<close> does not overwrite): \<^verbatim>\<open>GetSystem<S>\<close> still returns
  the instance registered first, and the new instance is dropped.
\<close>

theorem AddSystem_keeps_registered:
  "systems r S = Some old \<longrightarrow>
     AddSystem S new r = r \<and> systems (AddSystem S new r) = systems r \<and>
     GetSystem S (AddSystem S new r) = Inr old"
  by (simp add: AddSystem_def GetSystem_def)

theorem AddSystem_keeps_registered_witness:
  "GetSystem 3 (AddSystem 3 \<lparr>componentSignature = 5, entities = [1]\<rparr>
     (AddSystem 3 System_default (Registry_new :: unit Registry))) = Inr System_default"
proof -
  have "systems (AddSystem 3 System_default (Registry_new :: unit Registry)) 3 = Some System_default"
    by (simp add: AddSystem_def Registry_new_def)
  with AddSystem_keeps_registered
    [of "AddSystem 3 System_default (Registry_new :: unit Registry)" 3 System_default
       "\<lparr>componentSignature = 5, entities = [1]\<rparr>"]
  show ?thesis by blast
qed

text \<open>
  C10. \<^verbatim>\<open>RemoveSystem<S>\<close> without a registered system of kind \<open>S\<close> erases the end
  iterator, which is undefined behaviour. With one registered, the call returns, the
  entry of \<open>S\<close> is gone (\<^verbatim>\<open>HasSystem<S>\<close> is false), every other entry of the map and
  every other field of the registry is as before.
\<close>

theorem RemoveSystem_contract:
  "(\<not> HasSystem S r \<longrightarrow> RemoveSystem S r = Inl UndefinedBehaviour) \<and>
   (HasSystem S r \<longrightarrow>
      (\<exists>r'. RemoveSystem S r = Inr r' \<and> \<not> HasSystem S r' \<and>
            (\<forall>K. K \<noteq> S \<longrightarrow> systems r' K = systems r K) \<and>
            r' = r\<lparr>systems := systems r'\<rparr>))"
  by (auto simp: HasSystem_def RemoveSystem_def)

theorem RemoveSystem_contract_witness:
  "RemoveSystem 3 (Registry_new :: unit Registry) = Inl UndefinedBehaviour \<and>
   (\<exists>r'. RemoveSystem 3 (AddSystem 3 System_default (Registry_new :: unit Registry)) = Inr r' \<and>
         \<not> HasSystem 3 r')"
proof -
  have a: "\<not> HasSystem 3 (Registry_new :: unit Registry)"
    by (simp add: HasSystem_def Registry_new_def)
  have b: "HasSystem 3 (AddSystem 3 System_default (Registry_new :: unit Registry))"
    by (simp add: HasSystem_def AddSystem_def Registry_new_def)
  from a b RemoveSystem_contract [of 3 "Registry_new :: unit Registry"]
    RemoveSystem_contract [of 3 "AddSystem 3 System_default (Registry_new :: unit Registry)"]
  show ?thesis by blast
qed

section \<open>Components of an entity\<close>

text \<open>The definitions a concrete call is evaluated with.\<close>

lemmas eval_defs = CreateEntity_def Registry_new_def initial_ids_def AddComponent_def GetId_def
      vector_resize_def Pool_new_def Pool_GetSize_def Pool_Set_def Pool_Resize_def set_insert_def bitset_set_def
      MAX_COMPONENTS_def Let_def RemoveComponent_def System_default_def RequireComponent_def
      AddSystem_def Update_def AddEntityToSystems_def AddEntityToSystem_def KillEntity_def
      RemoveEntityFromSystems_def RemoveEntityFromSystem_def RemoveSystem_def
      set_bit_eq_or unset_bit_eq_or_xor

lemma GetId_assigned: "ids g T = Some i \<Longrightarrow> GetId T g = (i, g)"
  by (simp add: GetId_def)

lemma GetId_again: "GetId T g = (i, g') \<Longrightarrow> GetId T g' = (i, g')"
  by (rule GetId_assigned) (rule GetId_ids_self)

lemma bitset_set_Inr:
  "bitset_set pos val s = Inr sg \<longleftrightarrow>
     pos < MAX_COMPONENTS \<and> sg = (if val then set_bit pos s else unset_bit pos s)"
  by (auto simp: bitset_set_def)

lemma length_vector_resize [simp]: "length (vector_resize n d xs) = n"
  by (simp add: vector_resize_def)

lemma vector_resize_grow:
  "length xs \<le> n \<Longrightarrow> vector_resize n d xs = xs @ replicate (n - length xs) d"
  by (simp add: vector_resize_def)

lemma length_Pool_new [simp]: "length (Pool_new d) = 100"
  by (simp add: Pool_new_def)

text \<open>What a call of \<open>AddComponent\<close> that returns has done.\<close>

lemma AddComponent_InrE:
  assumes "AddComponent T d e v g r = Inr (g', r')"
  obtains cid pools p0 p1 where
    "GetId T g = (cid, g')"
    "pools = (if length (componentPools r) \<le> unat cid
              then vector_resize (unat (cid + 1)) None (componentPools r)
              else componentPools r)"
    "unat cid < length pools"
    "p0 = (case pools ! unat cid of None \<Rightarrow> Pool_new d | Some p \<Rightarrow> p)"
    "p1 = (if Pool_GetSize p0 \<le> e then Pool_Resize d (numEntities r) p0 else p0)"
    "unat e < length p1"
    "unat e < length (entityComponentSignatures r)"
    "unat cid < MAX_COMPONENTS"
    "r' = r\<lparr>componentPools := pools[unat cid := Some (p1[unat e := v])],
             entityComponentSignatures := (entityComponentSignatures r)
               [unat e := set_bit (unat cid) (entityComponentSignatures r ! unat e)]\<rparr>"
proof -
  obtain cid g1 where h: "GetId T g = (cid, g1)" by (cases "GetId T g")
  define pools where "pools = (if length (componentPools r) \<le> unat cid
              then vector_resize (unat (cid + 1)) None (componentPools r)
              else componentPools r)"
  define p0 where "p0 = (case pools ! unat cid of None \<Rightarrow> Pool_new d | Some p \<Rightarrow> p)"
  define p1 where "p1 = (if Pool_GetSize p0 \<le> e then Pool_Resize d (numEntities r) p0 else p0)"
  from assms have eq: "(if length pools \<le> unat cid then Inl UndefinedBehaviour
         else case Pool_Set e v p1 of
                Inl err \<Rightarrow> Inl err
              | Inr componentPool \<Rightarrow>
                  if length (entityComponentSignatures r) \<le> unat e
                  then Inl UndefinedBehaviour
                  else
                    (case bitset_set (unat cid) True
                            (entityComponentSignatures r ! unat e) of
                       Inl err \<Rightarrow> Inl err
                     | Inr sg \<Rightarrow>
                         Inr (g1, r\<lparr>componentPools := pools[unat cid := Some componentPool],
                                    entityComponentSignatures :=
                                      (entityComponentSignatures r)[unat e := sg]\<rparr>))) = Inr (g', r')"
    unfolding AddComponent_def h Let_def prod.case pools_def p0_def p1_def .
  then have 1: "unat cid < length pools" by (simp split: if_splits)
  with eq have 2: "unat e < length p1"
    by (simp add: Pool_Set_def split: if_splits)
  with eq 1 have 3: "unat e < length (entityComponentSignatures r)"
    by (simp add: Pool_Set_def split: if_splits)
  with eq 1 2 have 4: "unat cid < MAX_COMPONENTS"
    by (simp add: Pool_Set_def bitset_set_def split: if_splits)
  with eq 1 2 3 have 5: "g' = g1" and 6: "r' = r\<lparr>componentPools := pools[unat cid := Some (p1[unat e := v])],
             entityComponentSignatures := (entityComponentSignatures r)
               [unat e := set_bit (unat cid) (entityComponentSignatures r ! unat e)]\<rparr>"
    by (simp_all add: Pool_Set_def bitset_set_def)
  from that [OF h [folded 5] pools_def 1 p0_def p1_def 2 3 4 6] show thesis .
qed

lemma bit_set_bit_self: "n < MAX_COMPONENTS \<Longrightarrow> bit (set_bit n (w :: Signature)) n"
  by (simp add: bit_set_bit_iff MAX_COMPONENTS_def)

lemma AddComponent_Has_Get:
  assumes "AddComponent T d e v g r = Inr (g', r')"
  shows "HasComponent T e g' r' = Inr (g', True)" and "GetComponent T e g' r' = Inr (g', v)"
proof -
  from assms obtain cid pools p0 p1 where
    h: "GetId T g = (cid, g')"
    and 1: "unat cid < length pools"
    and "p0 = (case pools ! unat cid of None \<Rightarrow> Pool_new d | Some p \<Rightarrow> p)"
    and 2: "unat e < length p1"
    and 3: "unat e < length (entityComponentSignatures r)"
    and 4: "unat cid < MAX_COMPONENTS"
    and r': "r' = r\<lparr>componentPools := pools[unat cid := Some (p1[unat e := v])],
             entityComponentSignatures := (entityComponentSignatures r)
               [unat e := set_bit (unat cid) (entityComponentSignatures r ! unat e)]\<rparr>"
    by (rule AddComponent_InrE)
  have again: "GetId T g' = (cid, g')" by (rule GetId_again [OF h])
  from 3 4 show "HasComponent T e g' r' = Inr (g', True)"
    by (simp add: HasComponent_def again r' bitset_test_def bit_set_bit_self)
  from 1 2 show "GetComponent T e g' r' = Inr (g', v)"
    by (simp add: GetComponent_def again r' Pool_Get_def)
qed

lemma unat_less_GetSize: "\<not> Pool_GetSize p \<le> e \<Longrightarrow> unat e < length p"
proof -
  assume "\<not> Pool_GetSize p \<le> e"
  then have "unat e < unat (of_nat (length p) :: uint)"
    by (simp add: Pool_GetSize_def word_less_nat_alt not_le)
  also have "\<dots> \<le> length p" by (simp add: unat_of_nat)
  finally show ?thesis .
qed

lemma AddComponent_returns:
  assumes "entity_valid e r" and "unat (fst (GetId T g)) < MAX_COMPONENTS"
  shows "\<exists>g' r'. AddComponent T d e v g r = Inr (g', r')"
proof -
  obtain cid g1 where h: "GetId T g = (cid, g1)" by (cases "GetId T g")
  with assms(2) have c: "unat cid < MAX_COMPONENTS" by simp
  then have "unat cid + 1 < 2 ^ 32" by (simp add: MAX_COMPONENTS_def)
  then have suc: "unat (cid + 1) = unat cid + 1"
    by (simp add: unat_word_ariths)
  define pools where "pools = (if length (componentPools r) \<le> unat cid
              then vector_resize (unat (cid + 1)) None (componentPools r)
              else componentPools r)"
  define p0 where "p0 = (case pools ! unat cid of None \<Rightarrow> Pool_new d | Some p \<Rightarrow> p)"
  define p1 where "p1 = (if Pool_GetSize p0 \<le> e then Pool_Resize d (numEntities r) p0 else p0)"
  have 1: "unat cid < length pools" by (simp add: pools_def suc)
  from assms(1) have v: "unat e < unat (numEntities r)" "unat e < length (entityComponentSignatures r)"
    by (simp_all add: entity_valid_def word_less_nat_alt)
  have 2: "unat e < length p1"
    using v(1) unat_less_GetSize [of p0 e] by (simp add: p1_def Pool_Resize_def)
  from 1 2 v(2) c show ?thesis
    unfolding AddComponent_def h Let_def prod.case pools_def [symmetric] p0_def [symmetric]
        p1_def [symmetric] by (simp add: Pool_Set_def bitset_set_def)
qed

text \<open>
  C3. When \<^verbatim>\<open>AddComponent<T>(e, args)\<close> has completed, \<^verbatim>\<open>HasComponent<T>(e)\<close> is true
  and \<^verbatim>\<open>GetComponent<T>(e)\<close> returns the value \<open>v\<close> built from the arguments. The call
  does complete for every entity with a valid id, as long as the id of \<open>T\<close> fits a
  signature.
\<close>

theorem AddComponent_then_Has_Get:
  "(AddComponent T d e v g r = Inr (g', r') \<longrightarrow>
      HasComponent T e g' r' = Inr (g', True) \<and> GetComponent T e g' r' = Inr (g', v)) \<and>
   (entity_valid e r \<and> unat (fst (GetId T g)) < MAX_COMPONENTS \<longrightarrow>
      (\<exists>g1 r1. AddComponent T d e v g r = Inr (g1, r1)))"
  using AddComponent_Has_Get [of T d e v g r g' r'] AddComponent_returns [of e r T g d v]
  by blast

theorem AddComponent_then_Has_Get_witness:
  "\<exists>g' r'. AddComponent 0 0 0 (42 :: nat) initial_ids (snd (CreateEntity Registry_new)) = Inr (g', r') \<and>
     HasComponent 0 0 g' r' = Inr (g', True) \<and> GetComponent 0 0 g' r' = Inr (g', 42)"
proof -
  have a: "entity_valid 0 (snd (CreateEntity (Registry_new :: nat Registry)))"
    by (simp add: entity_valid_def eval_defs)
  have b: "unat (fst (GetId 0 initial_ids)) < MAX_COMPONENTS"
    by (simp add: eval_defs)
  from a b AddComponent_then_Has_Get
    [of 0 0 0 42 initial_ids "snd (CreateEntity (Registry_new :: nat Registry))"]
  obtain g' r' where
    c: "AddComponent 0 0 0 (42 :: nat) initial_ids (snd (CreateEntity Registry_new)) = Inr (g', r')"
    by blast
  with AddComponent_then_Has_Get
    [of 0 0 0 42 initial_ids "snd (CreateEntity (Registry_new :: nat Registry))" g' r']
  show ?thesis by blast
qed

text \<open>What a call of \<open>RemoveComponent\<close> that returns has done.\<close>

lemma RemoveComponent_InrE:
  assumes "RemoveComponent T e g r = Inr (g', r')"
  obtains cid where
    "GetId T g = (cid, g')"
    "unat e < length (entityComponentSignatures r)"
    "unat cid < MAX_COMPONENTS"
    "r' = r\<lparr>entityComponentSignatures := (entityComponentSignatures r)
               [unat e := unset_bit (unat cid) (entityComponentSignatures r ! unat e)]\<rparr>"
proof -
  obtain cid g1 where h: "GetId T g = (cid, g1)" by (cases "GetId T g")
  from assms have 1: "unat e < length (entityComponentSignatures r)"
    by (simp add: RemoveComponent_def h split: if_splits)
  with assms have 2: "unat cid < MAX_COMPONENTS"
    by (simp add: RemoveComponent_def h bitset_set_def split: if_splits)
  with assms 1 have 3: "g' = g1" and 4: "r' = r\<lparr>entityComponentSignatures := (entityComponentSignatures r)
               [unat e := unset_bit (unat cid) (entityComponentSignatures r ! unat e)]\<rparr>"
    by (simp_all add: RemoveComponent_def h bitset_set_def)
  from that [OF h [folded 3] 1 2 4] show thesis .
qed

lemma RemoveComponent_returns:
  assumes "unat e < length (entityComponentSignatures r)"
    and "unat (fst (GetId T g)) < MAX_COMPONENTS"
  shows "\<exists>g' r'. RemoveComponent T e g r = Inr (g', r')"
  using assms by (auto simp: RemoveComponent_def bitset_set_def split: prod.splits)

lemma GetId_wf:
  assumes "GetId T g = (cid, g')" and "ids_wf g" and "unat cid < MAX_COMPONENTS"
  shows "ids_wf g'"
proof (cases "ids g T")
  case (Some j)
  with assms show ?thesis by (simp add: GetId_def)
next
  case None
  with assms(1) have cid: "cid = nextId g"
    and g': "g' = g\<lparr>nextId := nextId g + 1, ids := (ids g)(T \<mapsto> nextId g)\<rparr>"
    by (auto simp: GetId_def)
  from assms(3) cid have "unat (nextId g) + 1 < 2 ^ 32" by (simp add: MAX_COMPONENTS_def)
  then have suc: "unat (nextId g + 1) = unat (nextId g) + 1"
    by (simp add: unat_word_ariths)
  have lt: "i < nextId g + 1" if "i \<le> nextId g" for i
    using that suc by (simp add: word_less_nat_alt word_le_nat_alt)
  from assms(2) have old: "\<And>U i. ids g U = Some i \<Longrightarrow> i < nextId g"
    and inj: "\<And>U V i. ids g U = Some i \<Longrightarrow> ids g V = Some i \<Longrightarrow> U = V"
    by (auto simp: ids_wf_def)
  show ?thesis
    unfolding ids_wf_def g'
    using old inj lt by (auto split: if_splits dest: old)
qed

lemma GetId_other_id:
  assumes "ids_wf g" and "ids g T = Some cid" and "U \<noteq> T"
  shows "fst (GetId U g) \<noteq> cid"
proof (cases "ids g U")
  case None
  with assms show ?thesis by (auto simp: GetId_def ids_wf_def)
next
  case (Some j)
  with assms show ?thesis by (auto simp: GetId_def ids_wf_def)
qed

lemma bit_unset_bit_self: "\<not> bit (unset_bit n (w :: Signature)) n"
  by (simp add: bit_unset_bit_iff)

lemma bit_unset_bit_other: "m \<noteq> n \<Longrightarrow> bit (unset_bit n (w :: Signature)) m = bit w m"
  by (simp add: bit_unset_bit_iff)

lemma RemoveComponent_effect:
  assumes wf: "ids_wf g" and rm: "RemoveComponent T e g r = Inr (g', r')"
  shows "HasComponent T e g' r' = Inr (g', False)"
    and "U \<noteq> T \<Longrightarrow> HasComponent U e g' r' = HasComponent U e g' r"
    and "\<exists>cid. ids g' T = Some cid \<and>
          r' = r\<lparr>entityComponentSignatures := (entityComponentSignatures r)
               [unat e := unset_bit (unat cid) (entityComponentSignatures r ! unat e)]\<rparr>"
    and "e' \<noteq> e \<Longrightarrow> entityComponentSignatures r' ! unat e' = entityComponentSignatures r ! unat e'"
    and "componentPools r' = componentPools r"
proof -
  from rm obtain cid where
    h: "GetId T g = (cid, g')"
    and 1: "unat e < length (entityComponentSignatures r)"
    and 2: "unat cid < MAX_COMPONENTS"
    and r': "r' = r\<lparr>entityComponentSignatures := (entityComponentSignatures r)
               [unat e := unset_bit (unat cid) (entityComponentSignatures r ! unat e)]\<rparr>"
    by (rule RemoveComponent_InrE)
  have again: "GetId T g' = (cid, g')" by (rule GetId_again [OF h])
  have self: "ids g' T = Some cid" by (rule GetId_ids_self [OF h])
  have wf': "ids_wf g'" by (rule GetId_wf [OF h wf 2])
  from 1 2 show "HasComponent T e g' r' = Inr (g', False)"
    by (simp add: HasComponent_def again r' bitset_test_def bit_unset_bit_self)
  from self r' show "\<exists>cid. ids g' T = Some cid \<and>
          r' = r\<lparr>entityComponentSignatures := (entityComponentSignatures r)
               [unat e := unset_bit (unat cid) (entityComponentSignatures r ! unat e)]\<rparr>"
    by blast
  show "componentPools r' = componentPools r" by (simp add: r')
  show "entityComponentSignatures r' ! unat e' = entityComponentSignatures r ! unat e'"
    if "e' \<noteq> e"
  proof -
    from that have "unat e' \<noteq> unat e" by (simp add: word_unat_eq_iff)
    then show ?thesis by (simp add: r')
  qed
  show "HasComponent U e g' r' = HasComponent U e g' r" if "U \<noteq> T"
  proof -
    obtain cu gu where hu: "GetId U g' = (cu, gu)" by (cases "GetId U g'")
    from GetId_other_id [OF wf' self that] hu have "cu \<noteq> cid" by simp
    then have "unat cu \<noteq> unat cid" by (simp add: word_unat_eq_iff)
    with 1 show ?thesis
      by (simp add: HasComponent_def hu r' bitset_test_def bit_unset_bit_other)
  qed
qed

lemma GetId_same_state: "GetId U g = (cu, g) \<Longrightarrow> ids g U = Some cu"
  by (rule GetId_ids_self)

lemma HasComponent_InrE:
  assumes "HasComponent U e g r = Inr (g', b)"
  obtains cu where "GetId U g = (cu, g')" "unat e < length (entityComponentSignatures r)"
    "unat cu < MAX_COMPONENTS" "b = bit (entityComponentSignatures r ! unat e) (unat cu)"
proof -
  obtain cu g1 where h: "GetId U g = (cu, g1)" by (cases "GetId U g")
  from assms have 1: "unat e < length (entityComponentSignatures r)"
    by (simp add: HasComponent_def h split: if_splits)
  with assms have 2: "unat cu < MAX_COMPONENTS"
    by (simp add: HasComponent_def h bitset_test_def split: if_splits)
  with assms 1 have 3: "g' = g1" and 4: "b = bit (entityComponentSignatures r ! unat e) (unat cu)"
    by (auto simp: HasComponent_def h bitset_test_def)
  from that [OF h [folded 3] 1 2 4] show thesis .
qed

lemma RemoveComponent_keeps_other:
  assumes wf: "ids_wf g" and rm: "RemoveComponent T e g r = Inr (g', r')"
    and U: "U \<noteq> T" and has: "HasComponent U e g r = Inr (g, b)"
  shows "HasComponent U e g' r' = Inr (g', b)"
proof -
  from has obtain cu where hu: "GetId U g = (cu, g)"
    and 1: "unat e < length (entityComponentSignatures r)"
    and 2: "unat cu < MAX_COMPONENTS"
    and b: "b = bit (entityComponentSignatures r ! unat e) (unat cu)"
    by (rule HasComponent_InrE)
  from rm obtain cid where h: "GetId T g = (cid, g')" by (rule RemoveComponent_InrE)
  have "ids g' U = Some cu"
    by (rule GetId_ids_mono [OF h GetId_same_state [OF hu]])
  then have "GetId U g' = (cu, g')" by (rule GetId_assigned)
  with 1 2 b have "HasComponent U e g' r = Inr (g', b)"
    by (simp add: HasComponent_def bitset_test_def)
  with RemoveComponent_effect(2) [OF wf rm U] show ?thesis by simp
qed

text \<open>
  C4. \<^verbatim>\<open>RemoveComponent<T>(e)\<close> clears bit \<open>IdOf(T)\<close> of the signature of \<open>e\<close> and does
  nothing else: afterwards \<^verbatim>\<open>HasComponent<T>(e)\<close> is false, \<^verbatim>\<open>HasComponent<U>(e)\<close>
  answers for every other kind \<open>U\<close> what it answers on the registry before the call (and
  what it answered before the call, for a kind that had its id), the signature of every
  other entity is the same, and the registry differs from the one
  before in that one signature only, so no pool is touched. The call completes for every
  entity with a valid id, as long as the id of \<open>T\<close> fits a signature.
\<close>

theorem RemoveComponent_frame:
  "(ids_wf g \<and> RemoveComponent T e g r = Inr (g', r') \<longrightarrow>
      HasComponent T e g' r' = Inr (g', False) \<and>
      (\<forall>U. U \<noteq> T \<longrightarrow> HasComponent U e g' r' = HasComponent U e g' r) \<and>
      (\<forall>U b. U \<noteq> T \<and> HasComponent U e g r = Inr (g, b) \<longrightarrow>
         HasComponent U e g' r' = Inr (g', b)) \<and>
      (\<exists>cid. ids g' T = Some cid \<and>
         r' = r\<lparr>entityComponentSignatures := (entityComponentSignatures r)
                [unat e := unset_bit (unat cid) (entityComponentSignatures r ! unat e)]\<rparr>) \<and>
      (\<forall>e'. e' \<noteq> e \<longrightarrow>
         entityComponentSignatures r' ! unat e' = entityComponentSignatures r ! unat e') \<and>
      componentPools r' = componentPools r) \<and>
   (entity_valid e r \<and> unat (fst (GetId T g)) < MAX_COMPONENTS \<longrightarrow>
      (\<exists>g1 r1. RemoveComponent T e g r = Inr (g1, r1)))"
proof (intro conjI impI allI; (elim conjE)?)
  assume "entity_valid e r" and "unat (fst (GetId T g)) < MAX_COMPONENTS"
  then show "\<exists>g1 r1. RemoveComponent T e g r = Inr (g1, r1)"
    by (intro RemoveComponent_returns) (simp_all add: entity_valid_def)
next
  fix U b
  assume "ids_wf g" and "RemoveComponent T e g r = Inr (g', r')" and "U \<noteq> T"
    and "HasComponent U e g r = Inr (g, b)"
  then show "HasComponent U e g' r' = Inr (g', b)"
    by (rule RemoveComponent_keeps_other)
qed (rule RemoveComponent_effect; assumption)+

theorem RemoveComponent_frame_witness:
  "\<exists>g r g' r'.
     run [CreateEntityOp, AddComponentOp 0 0 0 (42 :: nat), AddComponentOp 1 0 0 43]
       (initial_ids, Registry_new) = Inr (g, r) \<and>
     RemoveComponent 0 0 g r = Inr (g', r') \<and>
     HasComponent 0 0 g' r' = Inr (g', False) \<and>
     HasComponent 1 0 g' r' = Inr (g', True)"
proof -
  have "\<exists>g r. run [CreateEntityOp, AddComponentOp 0 0 0 (42 :: nat), AddComponentOp 1 0 0 43]
       (initial_ids, Registry_new) = Inr (g, r) \<and>
     entityComponentSignatures r = [3] \<and> numEntities r = 1 \<and>
     g = \<lparr>nextId = 2, ids = [0 \<mapsto> 0, 1 \<mapsto> 1]\<rparr>"
    by (simp add: eval_defs fun_eq_iff)
  then obtain g r where
    run: "run [CreateEntityOp, AddComponentOp 0 0 0 (42 :: nat), AddComponentOp 1 0 0 43]
       (initial_ids, Registry_new) = Inr (g, r)"
    and sg: "entityComponentSignatures r = [3]" and n: "numEntities r = 1"
    and g: "g = \<lparr>nextId = 2, ids = [0 \<mapsto> 0, 1 \<mapsto> 1]\<rparr>"
    by blast
  have wf: "ids_wf g" by (auto simp: ids_wf_def g split: if_splits)
  have valid: "entity_valid 0 r" by (simp add: entity_valid_def sg n)
  have id0: "unat (fst (GetId 0 g)) < MAX_COMPONENTS" by (simp add: g eval_defs)
  from valid id0 RemoveComponent_frame [of g 0 0 r]
  obtain g' r' where rm: "RemoveComponent 0 0 g r = Inr (g', r')" by blast
  then have g': "g' = g" by (simp add: g eval_defs split: if_splits)
  from wf rm RemoveComponent_frame [of g 0 0 r g' r']
  have 1: "HasComponent 0 0 g' r' = Inr (g', False)"
    and 2: "HasComponent 1 0 g' r' = HasComponent 1 0 g' r" by simp_all
  have "HasComponent 1 0 g' r = Inr (g', True)"
    by (simp add: HasComponent_def g' g sg GetId_def bitset_test_def MAX_COMPONENTS_def
        bit_iff_odd_drop_bit)
  with run rm 1 2 show ?thesis by metis
qed

section \<open>Systems, matching and Update\<close>

lemma AddEntityToSystem_set [simp]:
  "set (entities (AddEntityToSystem e s)) = insert e (set (entities s))"
  by (auto simp: AddEntityToSystem_def)

lemma AddEntityToSystem_sig [simp]:
  "componentSignature (AddEntityToSystem e s) = componentSignature s"
  by (simp add: AddEntityToSystem_def)

lemma RemoveEntityFromSystem_set [simp]:
  "set (entities (RemoveEntityFromSystem e s)) = set (entities s) - {e}"
  by (auto simp: RemoveEntityFromSystem_def)

lemma RemoveEntityFromSystem_sig [simp]:
  "componentSignature (RemoveEntityFromSystem e s) = componentSignature s"
  by (simp add: RemoveEntityFromSystem_def)

lemma AddEntityToSystems_InrE:
  assumes "AddEntityToSystems e r = Inr r'"
  obtains "unat e < length (entityComponentSignatures r)"
    "r' = r\<lparr>systems := (\<lambda>k. case systems r k of None \<Rightarrow> None
              | Some s \<Rightarrow> Some (if matches (entityComponentSignatures r ! unat e) s
                               then AddEntityToSystem e s else s))\<rparr>"
proof -
  from assms have 1: "unat e < length (entityComponentSignatures r)"
    by (simp add: AddEntityToSystems_def split: if_splits)
  with assms have 2: "r' = r\<lparr>systems := (\<lambda>k. case systems r k of None \<Rightarrow> None
              | Some s \<Rightarrow> Some (if matches (entityComponentSignatures r ! unat e) s
                               then AddEntityToSystem e s else s))\<rparr>"
    unfolding AddEntityToSystems_def matches_def Let_def by simp
  from that [OF 1 2] show thesis .
qed

lemma AddEntityToSystems_system:
  assumes "AddEntityToSystems e r = Inr r'" and "systems r K = Some s"
  shows "\<exists>s'. systems r' K = Some s' \<and> componentSignature s' = componentSignature s \<and>
           set (entities s') = (if matches (entityComponentSignatures r ! unat e) s
                                then insert e (set (entities s)) else set (entities s))"
  using assms(1)
proof (rule AddEntityToSystems_InrE)
  assume "r' = r\<lparr>systems := (\<lambda>k. case systems r k of None \<Rightarrow> None
              | Some s \<Rightarrow> Some (if matches (entityComponentSignatures r ! unat e) s
                               then AddEntityToSystem e s else s))\<rparr>"
  with assms(2) show ?thesis by simp
qed

lemma AddEntityToSystems_frame:
  assumes "AddEntityToSystems e r = Inr r'"
  shows "r' = r\<lparr>systems := systems r'\<rparr>" and "dom (systems r') = dom (systems r)"
  using assms by (auto elim!: AddEntityToSystems_InrE split: option.splits)

lemma AddEntitiesToSystems_frame:
  "AddEntitiesToSystems es r = Inr r' \<Longrightarrow>
   r' = r\<lparr>systems := systems r'\<rparr> \<and> dom (systems r') = dom (systems r)"
proof (induction es arbitrary: r)
  case Nil
  then show ?case by simp
next
  case (Cons e es)
  then obtain r1 where 1: "AddEntityToSystems e r = Inr r1"
    and 2: "AddEntitiesToSystems es r1 = Inr r'"
    by (auto split: sum.splits)
  from AddEntityToSystems_frame [OF 1] Cons.IH [OF 2]
  show ?case by (metis Registry.surjective Registry.update_convs(6))
qed

lemma AddEntitiesToSystems_system:
  "AddEntitiesToSystems es r = Inr r' \<Longrightarrow> systems r K = Some s \<Longrightarrow>
   \<exists>s'. systems r' K = Some s' \<and> componentSignature s' = componentSignature s \<and>
        set (entities s') =
          set (entities s) \<union> {e \<in> set es. matches (entityComponentSignatures r ! unat e) s}"
proof (induction es arbitrary: r s)
  case Nil
  then show ?case by simp
next
  case (Cons e es)
  then obtain r1 where 1: "AddEntityToSystems e r = Inr r1"
    and 2: "AddEntitiesToSystems es r1 = Inr r'"
    by (auto split: sum.splits)
  from AddEntityToSystems_system [OF 1 Cons.prems(2)] obtain s1 where
    s1: "systems r1 K = Some s1" "componentSignature s1 = componentSignature s"
      "set (entities s1) = (if matches (entityComponentSignatures r ! unat e) s
                                then insert e (set (entities s)) else set (entities s))"
    by blast
  from AddEntityToSystems_frame(1) [OF 1]
  have sg: "entityComponentSignatures r1 = entityComponentSignatures r"
    by (metis Registry.select_convs(5) Registry.surjective Registry.update_convs(6))
  from s1(2) have m: "matches x s1 = matches x s" for x by (simp add: matches_def)
  from Cons.IH [OF 2 s1(1)] obtain s' where
    s': "systems r' K = Some s'" "componentSignature s' = componentSignature s1"
      "set (entities s') =
          set (entities s1) \<union> {e \<in> set es. matches (entityComponentSignatures r1 ! unat e) s1}"
    by blast
  from s'(3) s1(3) have "set (entities s') =
          set (entities s) \<union> {x \<in> set (e # es). matches (entityComponentSignatures r ! unat x) s}"
    by (auto simp: sg m)
  with s'(1,2) s1(2) show ?case by simp
qed

lemma AddEntitiesToSystems_returns:
  "\<forall>e \<in> set es. unat e < length (entityComponentSignatures r) \<Longrightarrow>
   \<exists>r'. AddEntitiesToSystems es r = Inr r'"
proof (induction es arbitrary: r)
  case Nil
  then show ?case by simp
next
  case (Cons e es)
  then obtain r1 where 1: "AddEntityToSystems e r = Inr r1"
    by (auto simp: AddEntityToSystems_def Let_def)
  from AddEntityToSystems_frame(1) [OF 1]
  have sg: "entityComponentSignatures r1 = entityComponentSignatures r"
    by (metis Registry.select_convs(5) Registry.surjective Registry.update_convs(6))
  with Cons.prems have "\<forall>e \<in> set es. unat e < length (entityComponentSignatures r1)" by simp
  from Cons.IH [OF this] 1 show ?case by simp
qed

lemma RemoveEntitiesFromSystems_frame:
  "RemoveEntitiesFromSystems es r = r\<lparr>systems := systems (RemoveEntitiesFromSystems es r)\<rparr>"
proof (induction es arbitrary: r)
  case Nil
  show ?case by simp
next
  case (Cons e es)
  have "RemoveEntityFromSystems e r = r\<lparr>systems := systems (RemoveEntityFromSystems e r)\<rparr>"
    by (simp add: RemoveEntityFromSystems_def)
  with Cons.IH [of "RemoveEntityFromSystems e r"] show ?case
    by (metis RemoveEntitiesFromSystems.simps(2) Registry.surjective Registry.update_convs(6))
qed

lemma RemoveEntitiesFromSystems_system:
  "systems r K = Some s \<Longrightarrow>
   \<exists>s'. systems (RemoveEntitiesFromSystems es r) K = Some s' \<and>
        componentSignature s' = componentSignature s \<and>
        set (entities s') = set (entities s) - set es"
proof (induction es arbitrary: r s)
  case Nil
  then show ?case by simp
next
  case (Cons e es)
  from Cons.prems have "systems (RemoveEntityFromSystems e r) K = Some (RemoveEntityFromSystem e s)"
    by (simp add: RemoveEntityFromSystems_def)
  from Cons.IH [OF this] show ?case by auto
qed

lemma RemoveEntitiesFromSystems_none:
  "systems r K = None \<Longrightarrow> systems (RemoveEntitiesFromSystems es r) K = None"
  by (induction es arbitrary: r) (simp_all add: RemoveEntityFromSystems_def)

lemma Update_InrE:
  assumes "Update r = Inr r'"
  obtains r1 where "AddEntitiesToSystems (entitiesToBeAdded r) r = Inr r1"
    "r' = (RemoveEntitiesFromSystems (entitiesToBeKilled r1) (r1\<lparr>entitiesToBeAdded := []\<rparr>))
            \<lparr>entitiesToBeKilled := []\<rparr>"
  using assms by (auto simp: Update_def Let_def split: sum.splits)

lemma Update_system:
  assumes "Update r = Inr r'" and "systems r K = Some s"
  shows "\<exists>s'. systems r' K = Some s' \<and> componentSignature s' = componentSignature s \<and>
           set (entities s') =
             (set (entities s) \<union>
              {e \<in> set (entitiesToBeAdded r). matches (entityComponentSignatures r ! unat e) s}) -
             set (entitiesToBeKilled r)"
proof -
  from assms(1) obtain r1 where
    1: "AddEntitiesToSystems (entitiesToBeAdded r) r = Inr r1"
    and r': "r' = (RemoveEntitiesFromSystems (entitiesToBeKilled r1) (r1\<lparr>entitiesToBeAdded := []\<rparr>))
            \<lparr>entitiesToBeKilled := []\<rparr>"
    by (rule Update_InrE)
  from AddEntitiesToSystems_system [OF 1 assms(2)] obtain s1 where
    s1: "systems r1 K = Some s1" "componentSignature s1 = componentSignature s"
      "set (entities s1) = set (entities s) \<union>
         {e \<in> set (entitiesToBeAdded r). matches (entityComponentSignatures r ! unat e) s}"
    by blast
  from AddEntitiesToSystems_frame [OF 1]
  have k: "entitiesToBeKilled r1 = entitiesToBeKilled r"
    by (metis Registry.select_convs(3) Registry.surjective Registry.update_convs(6))
  from s1(1) have "systems (r1\<lparr>entitiesToBeAdded := []\<rparr>) K = Some s1" by simp
  from RemoveEntitiesFromSystems_system [OF this, of "entitiesToBeKilled r1"] obtain s' where
    "systems (RemoveEntitiesFromSystems (entitiesToBeKilled r1) (r1\<lparr>entitiesToBeAdded := []\<rparr>)) K = Some s'"
    "componentSignature s' = componentSignature s1"
    "set (entities s') = set (entities s1) - set (entitiesToBeKilled r1)"
    by blast
  with s1 k show ?thesis by (simp add: r')
qed

lemma Update_frame:
  assumes "Update r = Inr r'"
  shows "entitiesToBeAdded r' = []" and "entitiesToBeKilled r' = []"
    and "dom (systems r') = dom (systems r)"
    and "r' = r\<lparr>entitiesToBeAdded := [], entitiesToBeKilled := [], systems := systems r'\<rparr>"
proof -
  from assms obtain r1 where
    1: "AddEntitiesToSystems (entitiesToBeAdded r) r = Inr r1"
    and r': "r' = (RemoveEntitiesFromSystems (entitiesToBeKilled r1) (r1\<lparr>entitiesToBeAdded := []\<rparr>))
            \<lparr>entitiesToBeKilled := []\<rparr>"
    by (rule Update_InrE)
  define r2 where "r2 = r1\<lparr>entitiesToBeAdded := []\<rparr>"
  define r3 where "r3 = RemoveEntitiesFromSystems (entitiesToBeKilled r1) r2"
  have f3: "r3 = r2\<lparr>systems := systems r3\<rparr>"
    unfolding r3_def by (rule RemoveEntitiesFromSystems_frame)
  from AddEntitiesToSystems_frame [OF 1]
  have f1: "r1 = r\<lparr>systems := systems r1\<rparr>" and d1: "dom (systems r1) = dom (systems r)"
    by simp_all
  have r'3: "r' = r3\<lparr>entitiesToBeKilled := []\<rparr>" by (simp add: r' r3_def r2_def)
  have a3: "entitiesToBeAdded r3 = []"
    by (subst f3) (simp add: r2_def)
  show "entitiesToBeAdded r' = []" by (simp add: r'3 a3)
  show "entitiesToBeKilled r' = []" by (simp add: r'3)
  have "systems r3 K = None \<longleftrightarrow> systems r1 K = None" for K
  proof (cases "systems r1 K")
    case None
    then have "systems r2 K = None" by (simp add: r2_def)
    from RemoveEntitiesFromSystems_none [OF this] None show ?thesis by (simp add: r3_def)
  next
    case (Some s1)
    then have "systems r2 K = Some s1" by (simp add: r2_def)
    from RemoveEntitiesFromSystems_system [OF this, of "entitiesToBeKilled r1"] Some
    show ?thesis by (auto simp: r3_def)
  qed
  then have "dom (systems r3) = dom (systems r1)" by (auto simp: dom_def)
  with d1 show "dom (systems r') = dom (systems r)" by (simp add: r'3)
  have "r' = r2\<lparr>systems := systems r3, entitiesToBeKilled := []\<rparr>"
    by (subst r'3, subst f3) simp
  also have "r2 = r\<lparr>systems := systems r1, entitiesToBeAdded := []\<rparr>"
    by (subst r2_def, subst f1) simp
  finally show "r' = r\<lparr>entitiesToBeAdded := [], entitiesToBeKilled := [], systems := systems r'\<rparr>"
    by (simp add: r'3)
qed

lemma Update_returns:
  assumes "\<forall>e \<in> set (entitiesToBeAdded r). unat e < length (entityComponentSignatures r)"
  shows "\<exists>r'. Update r = Inr r'"
  using AddEntitiesToSystems_returns [OF assms] by (auto simp: Update_def Let_def)

lemma Update_empty:
  assumes "entitiesToBeAdded r = []" and "entitiesToBeKilled r = []"
  shows "Update r = Inr r"
  using assms by (simp add: Update_def)

lemma AddComponent_systems:
  assumes "AddComponent T d e v g r = Inr (g', r')"
  shows "systems r' = systems r"
  using assms by (rule AddComponent_InrE) simp

text \<open>The signature a system has after its constructor has required its kinds.\<close>

lemma RequireComponent_InrE:
  assumes "RequireComponent T g s = Inr (g', s')"
  obtains cid where "GetId T g = (cid, g')" "unat cid < MAX_COMPONENTS"
    "s' = s\<lparr>componentSignature := set_bit (unat cid) (componentSignature s)\<rparr>"
proof -
  obtain cid g1 where h: "GetId T g = (cid, g1)" by (cases "GetId T g")
  from assms have 1: "unat cid < MAX_COMPONENTS"
    by (simp add: RequireComponent_def h bitset_set_def split: if_splits)
  with assms have 2: "g' = g1"
    and 3: "s' = s\<lparr>componentSignature := set_bit (unat cid) (componentSignature s)\<rparr>"
    by (simp_all add: RequireComponent_def h bitset_set_def)
  from that [OF h [folded 2] 1 3] show thesis .
qed

lemma bit_set_bit_Signature:
  "m < MAX_COMPONENTS \<Longrightarrow> bit (set_bit m (w :: Signature)) n \<longleftrightarrow> bit w n \<or> n = m"
  by (auto simp: bit_set_bit_iff MAX_COMPONENTS_def)

lemma RequireComponents_bits:
  "RequireComponents Ts g s = Inr (g', s') \<Longrightarrow>
   (\<forall>U j. ids g U = Some j \<longrightarrow> ids g' U = Some j) \<and>
   (\<forall>T \<in> set Ts. \<exists>i. ids g' T = Some i \<and> unat i < MAX_COMPONENTS) \<and>
   (\<forall>n. bit (componentSignature s') n \<longleftrightarrow>
        bit (componentSignature s) n \<or> (\<exists>T \<in> set Ts. ids g' T = Some (of_nat n) \<and> n < MAX_COMPONENTS)) \<and>
   entities s' = entities s"
proof (induction Ts arbitrary: g s)
  case Nil
  then show ?case by simp
next
  case (Cons T Ts)
  then obtain g1 s1 where 1: "RequireComponent T g s = Inr (g1, s1)"
    and 2: "RequireComponents Ts g1 s1 = Inr (g', s')"
    by (auto split: sum.splits)
  from 1 obtain cid where h: "GetId T g = (cid, g1)" and c: "unat cid < MAX_COMPONENTS"
    and s1: "s1 = s\<lparr>componentSignature := set_bit (unat cid) (componentSignature s)\<rparr>"
    by (rule RequireComponent_InrE)
  from Cons.IH [OF 2] have
    mono: "\<And>U j. ids g1 U = Some j \<Longrightarrow> ids g' U = Some j"
    and all: "\<forall>T \<in> set Ts. \<exists>i. ids g' T = Some i \<and> unat i < MAX_COMPONENTS"
    and bits: "\<And>n. bit (componentSignature s') n \<longleftrightarrow>
        bit (componentSignature s1) n \<or> (\<exists>T \<in> set Ts. ids g' T = Some (of_nat n) \<and> n < MAX_COMPONENTS)"
    and ent: "entities s' = entities s1"
    by blast+
  have T: "ids g' T = Some cid" by (rule mono [OF GetId_ids_self [OF h]])
  have cid: "of_nat (unat cid) = cid" by simp
  have "bit (componentSignature s') n \<longleftrightarrow>
        bit (componentSignature s) n \<or>
        (\<exists>T \<in> set (T # Ts). ids g' T = Some (of_nat n) \<and> n < MAX_COMPONENTS)" for n
  proof -
    have "n = unat cid \<longleftrightarrow> ids g' T = Some (of_nat n) \<and> n < MAX_COMPONENTS"
    proof
      assume "n = unat cid"
      with T c show "ids g' T = Some (of_nat n) \<and> n < MAX_COMPONENTS" by simp
    next
      assume a: "ids g' T = Some (of_nat n) \<and> n < MAX_COMPONENTS"
      with T have "cid = of_nat n" by simp
      moreover from a have "unat (of_nat n :: uint) = n"
        by (simp add: unat_of_nat MAX_COMPONENTS_def)
      ultimately show "n = unat cid" by simp
    qed
    with bits [of n] c show ?thesis
      by (auto simp: s1 bit_set_bit_Signature)
  qed
  moreover from mono GetId_ids_mono [OF h]
  have "\<forall>U j. ids g U = Some j \<longrightarrow> ids g' U = Some j" by blast
  moreover from all T c
  have "\<forall>T \<in> set (T # Ts). \<exists>i. ids g' T = Some i \<and> unat i < MAX_COMPONENTS" by simp
  moreover from ent have "entities s' = entities s" by (simp add: s1)
  ultimately show ?case by blast
qed

lemma matches_bits: "matches sg s \<longleftrightarrow> (\<forall>n. bit (componentSignature s) n \<longrightarrow> bit sg n)"
proof
  assume m: "matches sg s"
  show "\<forall>n. bit (componentSignature s) n \<longrightarrow> bit sg n"
  proof (intro allI impI)
    fix n assume "bit (componentSignature s) n"
    with m have "bit (sg AND componentSignature s) n" by (simp add: matches_def)
    then show "bit sg n" by (simp add: bit_and_iff)
  qed
next
  assume "\<forall>n. bit (componentSignature s) n \<longrightarrow> bit sg n"
  then show "matches sg s"
    unfolding matches_def by (intro bit_eqI) (auto simp: bit_and_iff)
qed

lemma RequireComponents_matches:
  assumes "RequireComponents Ts g System_default = Inr (g', s)"
  shows "matches sg s \<longleftrightarrow> (\<forall>T \<in> set Ts. \<exists>i. ids g' T = Some i \<and> bit sg (unat i))"
proof -
  from RequireComponents_bits [OF assms] have
    all: "\<forall>T \<in> set Ts. \<exists>i. ids g' T = Some i \<and> unat i < MAX_COMPONENTS"
    and bits: "\<And>n. bit (componentSignature s) n \<longleftrightarrow>
        (\<exists>T \<in> set Ts. ids g' T = Some (of_nat n) \<and> n < MAX_COMPONENTS)"
    by (simp_all add: System_default_def)
  show ?thesis
  proof
    assume m: "matches sg s"
    show "\<forall>T \<in> set Ts. \<exists>i. ids g' T = Some i \<and> bit sg (unat i)"
    proof
      fix T assume T: "T \<in> set Ts"
      with all obtain i where i: "ids g' T = Some i" "unat i < MAX_COMPONENTS" by blast
      with T have "bit (componentSignature s) (unat i)"
        by (subst bits) (auto intro!: bexI [of _ T])
      with m i show "\<exists>i. ids g' T = Some i \<and> bit sg (unat i)"
        by (auto simp: matches_bits)
    qed
  next
    assume r: "\<forall>T \<in> set Ts. \<exists>i. ids g' T = Some i \<and> bit sg (unat i)"
    show "matches sg s"
      unfolding matches_bits
    proof (intro allI impI)
      fix n assume "bit (componentSignature s) n"
      then obtain T where T: "T \<in> set Ts" "ids g' T = Some (of_nat n)" "n < MAX_COMPONENTS"
        by (auto simp: bits)
      from T(3) have "unat (of_nat n :: uint) = n"
        by (simp add: unat_of_nat MAX_COMPONENTS_def)
      with r T show "bit sg n" by fastforce
    qed
  qed
qed

lemma Update_new_member:
  assumes "Update r = Inr r'" and "systems r K = Some s" and "systems r' K = Some s'"
    and "x \<in> set (entities s')" and "x \<notin> set (entities s)"
  shows "matches (entityComponentSignatures r ! unat x) s"
  using Update_system [OF assms(1,2)] assms(3-5) by auto

text \<open>
  C1, as the claim states it, fails in its last part. Entity 0 gets the kinds 0 and 1, a
  system requiring both is registered, and \<^verbatim>\<open>Update()\<close> matches the entity into it. Then
  kind 0 is removed from the entity and \<^verbatim>\<open>Update()\<close> runs again: the queues are empty, so
  the system still lists entity 0, whose signature at this last \<^verbatim>\<open>Update()\<close> has bit 0
  clear.
\<close>

theorem stale_membership_counterexample:
  "case run [CreateEntityOp, AddComponentOp 0 0 0 (42 :: nat), AddComponentOp 1 0 0 43,
             AddSystemOp 5 [0, 1], UpdateOp, RemoveComponentOp 0 0, UpdateOp]
            (initial_ids, Registry_new) of
     Inl err \<Rightarrow> False
   | Inr (g, r) \<Rightarrow>
       ids g 0 = Some 0 \<and> ids g 1 = Some 1 \<and>
       map_option componentSignature (systems r 5) = Some 3 \<and>
       map_option entities (systems r 5) = Some [0] \<and>
       entityComponentSignatures r = [2] \<and>
       \<not> bit (entityComponentSignatures r ! 0) 0"
  by (simp add: eval_defs)

text \<open>
  C1, amended. \<^verbatim>\<open>AddEntityToSystems(e)\<close> adds \<open>e\<close> to the entity list of a registered
  system exactly when the entity's signature at that moment, ANDed with the system's
  signature, equals the system's signature; a list that does not match is left alone. For
  a system whose constructor required the kinds \<open>Ts\<close>, a signature passes this test exactly
  when it has the bit of every kind in the set of \<open>Ts\<close>, so the order of the requirements
  is irrelevant. And an entity that a call of \<^verbatim>\<open>Update()\<close> brings into a system had, at
  that call, all the required bits; entities already listed are not examined again.
\<close>

theorem AddEntityToSystems_matching:
  "(AddEntityToSystems e r = Inr r' \<and> systems r K = Some s \<longrightarrow>
      (\<exists>s'. systems r' K = Some s' \<and> componentSignature s' = componentSignature s \<and>
            set (entities s') =
              (if entityComponentSignatures r ! unat e AND componentSignature s = componentSignature s
               then insert e (set (entities s)) else set (entities s)))) \<and>
   (RequireComponents Ts g System_default = Inr (g', s0) \<longrightarrow>
      (\<forall>sg. sg AND componentSignature s0 = componentSignature s0 \<longleftrightarrow>
            (\<forall>T \<in> set Ts. \<exists>i. ids g' T = Some i \<and> bit sg (unat i)))) \<and>
   (Update r = Inr r2 \<and> systems r K = Some s \<and> systems r2 K = Some s2 \<and>
    x \<in> set (entities s2) \<and> x \<notin> set (entities s) \<longrightarrow>
      entityComponentSignatures r ! unat x AND componentSignature s = componentSignature s)"
proof -
  have a: "AddEntityToSystems e r = Inr r' \<and> systems r K = Some s \<longrightarrow>
      (\<exists>s'. systems r' K = Some s' \<and> componentSignature s' = componentSignature s \<and>
            set (entities s') =
              (if entityComponentSignatures r ! unat e AND componentSignature s = componentSignature s
               then insert e (set (entities s)) else set (entities s)))"
    using AddEntityToSystems_system [of e r r' K s] unfolding matches_def by blast
  have b: "RequireComponents Ts g System_default = Inr (g', s0) \<longrightarrow>
      (\<forall>sg. sg AND componentSignature s0 = componentSignature s0 \<longleftrightarrow>
            (\<forall>T \<in> set Ts. \<exists>i. ids g' T = Some i \<and> bit sg (unat i)))"
    using RequireComponents_matches [of Ts g g' s0] unfolding matches_def by blast
  have c: "Update r = Inr r2 \<and> systems r K = Some s \<and> systems r2 K = Some s2 \<and>
    x \<in> set (entities s2) \<and> x \<notin> set (entities s) \<longrightarrow>
      entityComponentSignatures r ! unat x AND componentSignature s = componentSignature s"
    using Update_new_member [of r r2 K s s2 x] unfolding matches_def by blast
  show ?thesis by (intro conjI a b c)
qed

theorem AddEntityToSystems_matching_witness:
  "(\<exists>g r r' s'.
      run [CreateEntityOp, AddComponentOp 0 0 0 (42 :: nat), AddComponentOp 1 0 0 43,
           AddSystemOp 5 [1, 0]] (initial_ids, Registry_new) = Inr (g, r) \<and>
      AddEntityToSystems 0 r = Inr r' \<and> systems r' 5 = Some s' \<and> set (entities s') = {0}) \<and>
   (\<exists>g' s0. RequireComponents [7, 4] initial_ids System_default = Inr (g', s0) \<and>
      3 AND componentSignature s0 = componentSignature s0 \<and>
      1 AND componentSignature s0 \<noteq> componentSignature s0) \<and>
   (\<exists>g r r2 s s2.
      run [CreateEntityOp, AddComponentOp 0 0 0 (42 :: nat), AddComponentOp 1 0 0 43,
           AddSystemOp 5 [1, 0]] (initial_ids, Registry_new) = Inr (g, r) \<and>
      Update r = Inr r2 \<and> systems r 5 = Some s \<and> systems r2 5 = Some s2 \<and>
      0 \<in> set (entities s2) \<and> 0 \<notin> set (entities s) \<and>
      entityComponentSignatures r ! unat (0 :: Entity) AND componentSignature s = componentSignature s)"
proof -
  have "\<exists>g r. run [CreateEntityOp, AddComponentOp 0 0 0 (42 :: nat), AddComponentOp 1 0 0 43,
           AddSystemOp 5 [1, 0]] (initial_ids, Registry_new) = Inr (g, r) \<and>
       entityComponentSignatures r = [3] \<and> entitiesToBeAdded r = [0] \<and>
       entitiesToBeKilled r = [] \<and>
       systems r 5 = Some \<lparr>componentSignature = 3, entities = []\<rparr>"
    by (simp add: eval_defs)
  then obtain g r where
    run: "run [CreateEntityOp, AddComponentOp 0 0 0 (42 :: nat), AddComponentOp 1 0 0 43,
           AddSystemOp 5 [1, 0]] (initial_ids, Registry_new) = Inr (g, r)"
    and sg: "entityComponentSignatures r = [3]"
    and q: "entitiesToBeAdded r = [0]" "entitiesToBeKilled r = []"
    and sy: "systems r 5 = Some \<lparr>componentSignature = 3, entities = []\<rparr>"
    by blast
  have "\<exists>r'. AddEntityToSystems 0 r = Inr r'"
    by (simp add: AddEntityToSystems_def sg)
  then obtain r' where a: "AddEntityToSystems 0 r = Inr r'" ..
  from AddEntityToSystems_matching [THEN conjunct1, rule_format, OF conjI [OF a sy]]
  obtain s' where s': "systems r' 5 = Some s'"
    and "set (entities s') =
       (if entityComponentSignatures r ! unat (0 :: Entity) AND
           componentSignature \<lparr>componentSignature = 3, entities = []\<rparr> =
           componentSignature \<lparr>componentSignature = 3, entities = []\<rparr>
        then insert 0 (set (entities \<lparr>componentSignature = 3, entities = []\<rparr>))
        else set (entities \<lparr>componentSignature = 3, entities = []\<rparr>))"
    by blast
  then have se: "set (entities s') = {0}" by (simp add: sg)
  have first: "\<exists>g r r' s'.
      run [CreateEntityOp, AddComponentOp 0 0 0 (42 :: nat), AddComponentOp 1 0 0 43,
           AddSystemOp 5 [1, 0]] (initial_ids, Registry_new) = Inr (g, r) \<and>
      AddEntityToSystems 0 r = Inr r' \<and> systems r' 5 = Some s' \<and> set (entities s') = {0}"
    by (intro exI conjI) (rule run a s' se)+
  have "\<exists>g' s0. RequireComponents [7, 4] initial_ids System_default = Inr (g', s0) \<and>
      ids g' 7 = Some 0 \<and> ids g' 4 = Some 1"
    by (simp add: eval_defs)
  then obtain g' s0 where rc: "RequireComponents [7, 4] initial_ids System_default = Inr (g', s0)"
    and i: "ids g' 7 = Some 0" "ids g' 4 = Some 1"
    by blast
  note m = AddEntityToSystems_matching [THEN conjunct2, THEN conjunct1, rule_format, OF rc]
  have m3: "3 AND componentSignature s0 = componentSignature s0"
    by (subst m) (simp add: i bit_iff_odd_drop_bit)
  have m1: "1 AND componentSignature s0 \<noteq> componentSignature s0"
    by (subst m) (simp add: i)
  have second: "\<exists>g' s0. RequireComponents [7, 4] initial_ids System_default = Inr (g', s0) \<and>
      3 AND componentSignature s0 = componentSignature s0 \<and>
      1 AND componentSignature s0 \<noteq> componentSignature s0"
    by (intro exI conjI) (rule rc m3 m1)+
  have "\<exists>r2. Update r = Inr r2"
    by (rule Update_returns) (simp add: q sg)
  then obtain r2 where u: "Update r = Inr r2" ..
  from Update_system [OF u sy] obtain s2 where s2: "systems r2 5 = Some s2"
    and "set (entities s2) =
           (set (entities \<lparr>componentSignature = 3, entities = []\<rparr>) \<union>
            {e \<in> set (entitiesToBeAdded r).
               matches (entityComponentSignatures r ! unat e) \<lparr>componentSignature = 3, entities = []\<rparr>}) -
           set (entitiesToBeKilled r)"
    by blast
  then have in2: "0 \<in> set (entities s2)" by (simp add: q sg matches_def)
  have out: "0 \<notin> set (entities \<lparr>componentSignature = 3, entities = []\<rparr>)" by simp
  note t = AddEntityToSystems_matching [THEN conjunct2, THEN conjunct2, rule_format,
      OF conjI [OF u conjI [OF sy conjI [OF s2 conjI [OF in2 out]]]]]
  have third: "\<exists>g r r2 s s2.
      run [CreateEntityOp, AddComponentOp 0 0 0 (42 :: nat), AddComponentOp 1 0 0 43,
           AddSystemOp 5 [1, 0]] (initial_ids, Registry_new) = Inr (g, r) \<and>
      Update r = Inr r2 \<and> systems r 5 = Some s \<and> systems r2 5 = Some s2 \<and>
      0 \<in> set (entities s2) \<and> 0 \<notin> set (entities s) \<and>
      entityComponentSignatures r ! unat (0 :: Entity) AND componentSignature s = componentSignature s"
    by (intro exI conjI) (rule run u sy s2 in2 out t)+
  show ?thesis by (intro conjI first second third)
qed

lemma RemoveComponent_systems:
  "RemoveComponent T e g r = Inr (g', r') \<Longrightarrow> systems r' = systems r"
  by (erule RemoveComponent_InrE) simp

lemma other_operations_systems:
  assumes "apply_operation x (g, r) = Inr (g', r')"
    and "x \<noteq> UpdateOp" and "\<forall>e. x \<noteq> AddEntityToSystemsOp e"
    and "\<forall>K Ts. x \<noteq> AddSystemOp K Ts" and "\<forall>K. x \<noteq> RemoveSystemOp K"
  shows "systems r' = systems r"
proof (cases x)
  case CreateEntityOp
  with assms(1) show ?thesis by (auto simp: CreateEntity_def Let_def)
next
  case (AddComponentOp T d e v)
  with assms(1) show ?thesis by (auto dest: AddComponent_systems)
next
  case (RemoveComponentOp T e)
  with assms(1) show ?thesis by (auto dest: RemoveComponent_systems)
next
  case (KillEntityOp e)
  with assms(1) show ?thesis by (auto simp: KillEntity_def)
qed (use assms in simp_all)

lemma RequireComponents_entities:
  "RequireComponents Ts g s = Inr (g', s') \<Longrightarrow> entities s' = entities s"
  by (drule RequireComponents_bits) blast

lemma AddSystemOp_systems:
  assumes "apply_operation (AddSystemOp K Ts) (g, r) = Inr (g', r')"
  shows "\<forall>K'. K' \<noteq> K \<longrightarrow> systems r' K' = systems r K'"
    and "\<forall>s. systems r K = Some s \<longrightarrow> systems r' K = Some s"
    and "systems r K = None \<longrightarrow> (\<exists>s. systems r' K = Some s \<and> entities s = [])"
proof -
  from assms obtain s where a: "RequireComponents Ts g System_default = Inr (g', s)"
    and b: "r' = AddSystem K s r"
    by (auto split: sum.splits)
  from RequireComponents_entities [OF a] have e: "entities s = []"
    by (simp add: System_default_def)
  show "\<forall>K'. K' \<noteq> K \<longrightarrow> systems r' K' = systems r K'"
    by (simp add: b AddSystem_def split: option.splits)
  show "\<forall>s. systems r K = Some s \<longrightarrow> systems r' K = Some s"
    by (simp add: b AddSystem_def split: option.splits)
  show "systems r K = None \<longrightarrow> (\<exists>s. systems r' K = Some s \<and> entities s = [])"
    using e by (simp add: b AddSystem_def split: option.splits)
qed

lemma RemoveSystemOp_systems:
  assumes "apply_operation (RemoveSystemOp K) (g, r) = Inr (g', r')"
  shows "systems r' = (systems r)(K := None)"
  using assms by (auto simp: RemoveSystem_def split: sum.splits option.splits)

text \<open>
  C2, as the claim states it, fails: membership also changes outside \<^verbatim>\<open>Update()\<close>.
  \<^verbatim>\<open>AddEntityToSystems\<close> is a public operation of the registry; called directly on entity
  0, which has the kind that system 5 requires, it turns the system's list from empty to
  \<open>[0]\<close> without any \<^verbatim>\<open>Update()\<close>.
\<close>

theorem direct_AddEntityToSystems_counterexample:
  "(case run [CreateEntityOp, AddComponentOp 0 0 0 (42 :: nat), AddSystemOp 5 [0]]
             (initial_ids, Registry_new) of
      Inl err \<Rightarrow> False
    | Inr (g, r) \<Rightarrow> map_option entities (systems r 5) = Some []) \<and>
   (case run [CreateEntityOp, AddComponentOp 0 0 0 (42 :: nat), AddSystemOp 5 [0],
              AddEntityToSystemsOp 0] (initial_ids, Registry_new) of
      Inl err \<Rightarrow> False
    | Inr (g, r) \<Rightarrow> map_option entities (systems r 5) = Some [0])"
  by (simp add: eval_defs)

text \<open>
  C2, amended. A system's entity list changes in \<^verbatim>\<open>Update()\<close> and in a direct call of the
  public \<^verbatim>\<open>AddEntityToSystems\<close>, which adds the entity to exactly the matching systems;
  \<^verbatim>\<open>AddSystem\<close> and \<^verbatim>\<open>RemoveSystem\<close> add a whole system (with an empty list, and only if
  its kind is not registered) or remove one, and leave the other systems alone. Every
  other operation (\<^verbatim>\<open>CreateEntity\<close>, \<^verbatim>\<open>AddComponent\<close>, \<^verbatim>\<open>RemoveComponent\<close>, the
  enqueuing of a kill) leaves the map of systems, and so every entity list, as it is.
  A call of \<^verbatim>\<open>Update()\<close> that returns has emptied both queues and changed nothing but the
  systems' entity lists: each registered system keeps its signature and holds afterwards
  the entities it held before, plus the queued additions whose signature matches it,
  minus the queued kills. The call returns whenever the queued additions have signature
  slots, and with both queues empty it returns the registry unchanged.
\<close>

theorem membership_change_points:
  "(Update r = Inr r' \<longrightarrow>
      entitiesToBeAdded r' = [] \<and> entitiesToBeKilled r' = [] \<and>
      dom (systems r') = dom (systems r) \<and>
      r' = r\<lparr>entitiesToBeAdded := [], entitiesToBeKilled := [], systems := systems r'\<rparr> \<and>
      (\<forall>K s. systems r K = Some s \<longrightarrow>
         (\<exists>s'. systems r' K = Some s' \<and> componentSignature s' = componentSignature s \<and>
               set (entities s') =
                 (set (entities s) \<union>
                  {x \<in> set (entitiesToBeAdded r).
                     matches (entityComponentSignatures r ! unat x) s}) -
                 set (entitiesToBeKilled r)))) \<and>
   ((\<forall>x \<in> set (entitiesToBeAdded r). unat x < length (entityComponentSignatures r)) \<longrightarrow>
      (\<exists>r1. Update r = Inr r1)) \<and>
   systems (snd (CreateEntity r)) = systems r \<and>
   (AddComponent T d e v g r = Inr (g', r2) \<longrightarrow> systems r2 = systems r) \<and>
   systems (KillEntity e r) = systems r \<and>
   (entitiesToBeAdded r = [] \<and> entitiesToBeKilled r = [] \<longrightarrow> Update r = Inr r) \<and>
   (\<forall>x g0 g1 r1.
      apply_operation x (g0, r) = Inr (g1, r1) \<and> x \<noteq> UpdateOp \<and>
      (\<forall>y. x \<noteq> AddEntityToSystemsOp y) \<and> (\<forall>S Ts. x \<noteq> AddSystemOp S Ts) \<and>
      (\<forall>S. x \<noteq> RemoveSystemOp S) \<longrightarrow>
      systems r1 = systems r) \<and>
   (AddEntityToSystems e r = Inr r3 \<and> systems r K = Some s \<longrightarrow>
      (\<exists>s'. systems r3 K = Some s' \<and> componentSignature s' = componentSignature s \<and>
            set (entities s') =
              (if matches (entityComponentSignatures r ! unat e) s
               then insert e (set (entities s)) else set (entities s)))) \<and>
   (apply_operation (AddSystemOp K Ts) (g, r) = Inr (g4, r4) \<longrightarrow>
      (\<forall>K'. K' \<noteq> K \<longrightarrow> systems r4 K' = systems r K') \<and>
      (\<forall>s. systems r K = Some s \<longrightarrow> systems r4 K = Some s) \<and>
      (systems r K = None \<longrightarrow> (\<exists>s. systems r4 K = Some s \<and> entities s = []))) \<and>
   (RemoveSystem K r = Inr r5 \<longrightarrow> systems r5 = (systems r)(K := None))"
proof -
  have a: "Update r = Inr r' \<longrightarrow>
      entitiesToBeAdded r' = [] \<and> entitiesToBeKilled r' = [] \<and>
      dom (systems r') = dom (systems r) \<and>
      r' = r\<lparr>entitiesToBeAdded := [], entitiesToBeKilled := [], systems := systems r'\<rparr> \<and>
      (\<forall>K s. systems r K = Some s \<longrightarrow>
         (\<exists>s'. systems r' K = Some s' \<and> componentSignature s' = componentSignature s \<and>
               set (entities s') =
                 (set (entities s) \<union>
                  {x \<in> set (entitiesToBeAdded r).
                     matches (entityComponentSignatures r ! unat x) s}) -
                 set (entitiesToBeKilled r)))"
  proof
    assume u: "Update r = Inr r'"
    from Update_frame [OF u] Update_system [OF u]
    show "entitiesToBeAdded r' = [] \<and> entitiesToBeKilled r' = [] \<and>
      dom (systems r') = dom (systems r) \<and>
      r' = r\<lparr>entitiesToBeAdded := [], entitiesToBeKilled := [], systems := systems r'\<rparr> \<and>
      (\<forall>K s. systems r K = Some s \<longrightarrow>
         (\<exists>s'. systems r' K = Some s' \<and> componentSignature s' = componentSignature s \<and>
               set (entities s') =
                 (set (entities s) \<union>
                  {x \<in> set (entitiesToBeAdded r).
                     matches (entityComponentSignatures r ! unat x) s}) -
                 set (entitiesToBeKilled r)))"
      by blast
  qed
  have b: "(\<forall>x \<in> set (entitiesToBeAdded r). unat x < length (entityComponentSignatures r)) \<longrightarrow>
      (\<exists>r1. Update r = Inr r1)"
    using Update_returns [of r] by blast
  have c: "systems (snd (CreateEntity r)) = systems r"
    by (simp add: CreateEntity_def Let_def)
  have d: "AddComponent T d e v g r = Inr (g', r2) \<longrightarrow> systems r2 = systems r"
    using AddComponent_systems [of T d e v g r g' r2] by blast
  have e: "systems (KillEntity e r) = systems r"
    by (simp add: KillEntity_def)
  have f: "entitiesToBeAdded r = [] \<and> entitiesToBeKilled r = [] \<longrightarrow> Update r = Inr r"
    using Update_empty [of r] by blast
  have g: "\<forall>x g0 g1 r1.
      apply_operation x (g0, r) = Inr (g1, r1) \<and> x \<noteq> UpdateOp \<and>
      (\<forall>y. x \<noteq> AddEntityToSystemsOp y) \<and> (\<forall>S Ts. x \<noteq> AddSystemOp S Ts) \<and>
      (\<forall>S. x \<noteq> RemoveSystemOp S) \<longrightarrow>
      systems r1 = systems r"
    using other_operations_systems by blast
  have h: "AddEntityToSystems e r = Inr r3 \<and> systems r K = Some s \<longrightarrow>
      (\<exists>s'. systems r3 K = Some s' \<and> componentSignature s' = componentSignature s \<and>
            set (entities s') =
              (if matches (entityComponentSignatures r ! unat e) s
               then insert e (set (entities s)) else set (entities s)))"
    using AddEntityToSystems_system [of e r r3 K s] by blast
  have i: "apply_operation (AddSystemOp K Ts) (g, r) = Inr (g4, r4) \<longrightarrow>
      (\<forall>K'. K' \<noteq> K \<longrightarrow> systems r4 K' = systems r K') \<and>
      (\<forall>s. systems r K = Some s \<longrightarrow> systems r4 K = Some s) \<and>
      (systems r K = None \<longrightarrow> (\<exists>s. systems r4 K = Some s \<and> entities s = []))"
    using AddSystemOp_systems [of K Ts g r g4 r4] by blast
  have j: "RemoveSystem K r = Inr r5 \<longrightarrow> systems r5 = (systems r)(K := None)"
    by (auto simp: RemoveSystem_def split: option.splits)
  show ?thesis by (intro conjI a b c d e f g h i j)
qed

theorem membership_change_points_witness:
  "\<exists>g r r'.
     run [CreateEntityOp, CreateEntityOp, AddComponentOp 0 0 0 (42 :: nat), AddComponentOp 0 0 1 43,
          AddSystemOp 5 [0], KillEntityOp 1] (initial_ids, Registry_new) = Inr (g, r) \<and>
     Update r = Inr r' \<and> entitiesToBeAdded r' = [] \<and> entitiesToBeKilled r' = [] \<and>
     (\<exists>s'. systems r' 5 = Some s' \<and> set (entities s') = {0}) \<and>
     Update r' = Inr r' \<and>
     (\<exists>g1 r1. apply_operation (RemoveComponentOp 0 0) (g, r) = Inr (g1, r1) \<and>
        systems r1 = systems r) \<and>
     (\<exists>r3 s3. AddEntityToSystems 0 r = Inr r3 \<and> systems r3 5 = Some s3 \<and>
        set (entities s3) = {0})"
proof -
  have "\<exists>g r. run [CreateEntityOp, CreateEntityOp, AddComponentOp 0 0 0 (42 :: nat),
          AddComponentOp 0 0 1 43, AddSystemOp 5 [0], KillEntityOp 1]
          (initial_ids, Registry_new) = Inr (g, r) \<and>
       entitiesToBeAdded r = [0, 1] \<and> entitiesToBeKilled r = [1] \<and>
       entityComponentSignatures r = [1, 1] \<and> ids g 0 = Some 0 \<and>
       systems r 5 = Some \<lparr>componentSignature = 1, entities = []\<rparr>"
    by (simp add: eval_defs)
  then obtain g r where
    run: "run [CreateEntityOp, CreateEntityOp, AddComponentOp 0 0 0 (42 :: nat),
          AddComponentOp 0 0 1 43, AddSystemOp 5 [0], KillEntityOp 1]
          (initial_ids, Registry_new) = Inr (g, r)"
    and q: "entitiesToBeAdded r = [0, 1]" "entitiesToBeKilled r = [1]"
    and sg: "entityComponentSignatures r = [1, 1]"
    and i0: "ids g 0 = Some 0"
    and sy: "systems r 5 = Some \<lparr>componentSignature = 1, entities = []\<rparr>"
    by blast
  have "\<exists>r1. Update r = Inr r1"
    by (rule membership_change_points [THEN conjunct2, THEN conjunct1, rule_format]) (auto simp: q sg)
  then obtain r' where u: "Update r = Inr r'" ..
  note post = membership_change_points [of r r', THEN conjunct1, rule_format, OF u]
  note e = post [THEN conjunct1] post [THEN conjunct2, THEN conjunct1]
  have "{x \<in> set (entitiesToBeAdded r).
             matches (entityComponentSignatures r ! unat x) \<lparr>componentSignature = 1, entities = []\<rparr>}
           = set (filter (\<lambda>x. matches (entityComponentSignatures r ! unat x)
                 \<lparr>componentSignature = 1, entities = []\<rparr>) (entitiesToBeAdded r))"
    by simp
  also have "\<dots> = {0, 1}"
    by (simp add: q sg matches_def)
  finally have m: "{x \<in> set (entitiesToBeAdded r).
             matches (entityComponentSignatures r ! unat x) \<lparr>componentSignature = 1, entities = []\<rparr>}
           = {0, 1}" .
  from post [THEN conjunct2, THEN conjunct2, THEN conjunct2, THEN conjunct2, rule_format, OF sy]
  obtain s' where s': "systems r' 5 = Some s'"
    and "set (entities s') =
       (set (entities \<lparr>componentSignature = 1, entities = []\<rparr>) \<union>
        {x \<in> set (entitiesToBeAdded r).
           matches (entityComponentSignatures r ! unat x) \<lparr>componentSignature = 1, entities = []\<rparr>}) -
       set (entitiesToBeKilled r)"
    by blast
  then have "set (entities s') = ({} \<union> {0, 1}) - set [1]"
    unfolding m by (simp add: q)
  then have se: "set (entities s') = {0}" by (simp add: insert_Diff_if)
  have idem: "Update r' = Inr r'"
    by (rule membership_change_points [THEN conjunct2, THEN conjunct2, THEN conjunct2, THEN conjunct2,
          THEN conjunct2, THEN conjunct1, rule_format]) (simp add: e)
  have "\<exists>g1 r1. RemoveComponent 0 0 g r = Inr (g1, r1)"
    by (rule RemoveComponent_returns) (simp_all add: sg i0 GetId_def MAX_COMPONENTS_def)
  then obtain g1 r1 where rm: "apply_operation (RemoveComponentOp 0 0) (g, r) = Inr (g1, r1)"
    by auto
  from rm have pre: "apply_operation (RemoveComponentOp 0 0) (g, r) = Inr (g1, r1) \<and>
      RemoveComponentOp 0 0 \<noteq> (UpdateOp :: nat operation) \<and>
      (\<forall>y. RemoveComponentOp 0 0 \<noteq> (AddEntityToSystemsOp y :: nat operation)) \<and>
      (\<forall>S Ts. RemoveComponentOp 0 0 \<noteq> (AddSystemOp S Ts :: nat operation)) \<and>
      (\<forall>S. RemoveComponentOp 0 0 \<noteq> (RemoveSystemOp S :: nat operation))"
    by simp
  have fr: "systems r1 = systems r"
    by (rule membership_change_points [THEN conjunct2, THEN conjunct2, THEN conjunct2,
          THEN conjunct2, THEN conjunct2, THEN conjunct2, THEN conjunct1, rule_format, OF pre])
  have "\<exists>r3. AddEntityToSystems 0 r = Inr r3"
    by (simp add: AddEntityToSystems_def sg)
  then obtain r3 where a3: "AddEntityToSystems 0 r = Inr r3" ..
  from membership_change_points [THEN conjunct2, THEN conjunct2, THEN conjunct2,
          THEN conjunct2, THEN conjunct2, THEN conjunct2, THEN conjunct2, THEN conjunct1,
          rule_format, OF conjI [OF a3 sy]]
  obtain s3 where s3: "systems r3 5 = Some s3"
    and "set (entities s3) =
           (if matches (entityComponentSignatures r ! unat (0 :: Entity))
                 \<lparr>componentSignature = 1, entities = []\<rparr>
            then insert 0 (set (entities \<lparr>componentSignature = 1, entities = []\<rparr>))
            else set (entities \<lparr>componentSignature = 1, entities = []\<rparr>))"
    by blast
  then have se3: "set (entities s3) = {0}" by (simp add: sg matches_def)
  show ?thesis
    by (intro exI conjI) (rule run u e s' se idem rm fr a3 s3 se3)+
qed

section \<open>Pools and their size\<close>

lemma pools_grow_refl: "pools_grow r r"
  by (simp add: pools_grow_def)

lemma pools_grow_trans: "pools_grow r1 r2 \<Longrightarrow> pools_grow r2 r3 \<Longrightarrow> pools_grow r1 r3"
  unfolding pools_grow_def
  by (metis (no_types, lifting) le_trans less_le_trans)

lemma pools_grow_same: "componentPools r' = componentPools r \<Longrightarrow> pools_grow r r'"
  by (simp add: pools_grow_def)

lemma pools_ok_same: "componentPools r' = componentPools r \<Longrightarrow> pools_ok r \<Longrightarrow> pools_ok r'"
  by (simp add: pools_ok_def)

lemma unat_GetSize: "length p < 2 ^ 32 \<Longrightarrow> unat (Pool_GetSize p) = length p"
  by (simp add: Pool_GetSize_def unat_of_nat)

text \<open>The pool that \<open>AddComponent\<close> finds or creates, and what becomes of it.\<close>

lemma AddComponent_pools:
  assumes ok: "pools_ok r" and add: "AddComponent T d e v g r = Inr (g', r')"
  shows "\<exists>cid p0 k.
      ids g' T = Some cid \<and>
      p0 = (if unat cid < length (componentPools r)
            then (case componentPools r ! unat cid of None \<Rightarrow> Pool_new d | Some p \<Rightarrow> p)
            else Pool_new d) \<and>
      unat cid < length (componentPools r') \<and>
      componentPools r' ! unat cid = Some ((p0 @ replicate k d)[unat e := v]) \<and>
      unat e < length p0 + k \<and>
      (Pool_GetSize p0 \<le> e \<longrightarrow> length p0 + k = unat (numEntities r)) \<and>
      (\<not> Pool_GetSize p0 \<le> e \<longrightarrow> k = 0) \<and>
      length (componentPools r) \<le> length (componentPools r') \<and>
      (\<forall>c < length (componentPools r). c \<noteq> unat cid \<longrightarrow>
         componentPools r' ! c = componentPools r ! c)"
    and "pools_ok r'" and "pools_grow r r'"
proof -
  from add obtain cid pools p0 p1 where
    h: "GetId T g = (cid, g')"
    and pools: "pools = (if length (componentPools r) \<le> unat cid
              then vector_resize (unat (cid + 1)) None (componentPools r)
              else componentPools r)"
    and 1: "unat cid < length pools"
    and p0: "p0 = (case pools ! unat cid of None \<Rightarrow> Pool_new d | Some p \<Rightarrow> p)"
    and p1: "p1 = (if Pool_GetSize p0 \<le> e then Pool_Resize d (numEntities r) p0 else p0)"
    and 2: "unat e < length p1"
    and r': "r' = r\<lparr>componentPools := pools[unat cid := Some (p1[unat e := v])],
             entityComponentSignatures := (entityComponentSignatures r)
               [unat e := set_bit (unat cid) (entityComponentSignatures r ! unat e)]\<rparr>"
    by (rule AddComponent_InrE)
  \<comment> \<open>the vector of pools is extended, never cut\<close>
  have ext: "pools = componentPools r @ replicate (length pools - length (componentPools r)) None"
  proof (cases "length (componentPools r) \<le> unat cid")
    case True
    with 1 pools have "length (componentPools r) \<le> unat (cid + 1)" by simp
    with True pools show ?thesis by (simp add: vector_resize_grow)
  next
    case False
    with pools show ?thesis by simp
  qed
  then have len: "length (componentPools r) \<le> length pools"
    by (metis le_add1 length_append)
  have old: "pools ! c = componentPools r ! c" if "c < length (componentPools r)" for c
    using that by (subst ext) (simp add: nth_append)
  have new: "pools ! c = None" if "length (componentPools r) \<le> c" "c < length pools" for c
    using that by (subst ext) (simp add: nth_append)
  \<comment> \<open>the pool found or created fits \<^verbatim>\<open>unsigned int\<close>\<close>
  have p0': "p0 = (if unat cid < length (componentPools r)
            then (case componentPools r ! unat cid of None \<Rightarrow> Pool_new d | Some p \<Rightarrow> p)
            else Pool_new d)"
  proof (cases "unat cid < length (componentPools r)")
    case True
    with old [OF True] show ?thesis by (simp add: p0)
  next
    case False
    with new [of "unat cid"] 1 show ?thesis by (simp add: p0)
  qed
  have small: "length p0 < 2 ^ 32"
  proof (cases "pools ! unat cid")
    case None
    then show ?thesis by (simp add: p0)
  next
    case (Some p)
    with new [of "unat cid"] 1 have c: "unat cid < length (componentPools r)"
      by (cases "unat cid < length (componentPools r)") simp_all
    with old [OF c] Some have "Some p \<in> set (componentPools r)"
      by (metis nth_mem)
    with ok Some show ?thesis by (simp add: pools_ok_def p0)
  qed
  \<comment> \<open>the pool is extended, never cut\<close>
  define k where "k = length p1 - length p0"
  have grow: "p1 = p0 @ replicate k d"
    and k: "Pool_GetSize p0 \<le> e \<longrightarrow> length p0 + k = unat (numEntities r)"
      "\<not> Pool_GetSize p0 \<le> e \<longrightarrow> k = 0"
  proof -
    show "\<not> Pool_GetSize p0 \<le> e \<longrightarrow> k = 0" by (simp add: k_def p1)
    show "p1 = p0 @ replicate k d"
    proof (cases "Pool_GetSize p0 \<le> e")
      case True
      then have "length p0 \<le> unat e"
        using unat_GetSize [OF small] by (simp add: word_le_nat_alt)
      with 2 True have "length p0 \<le> unat (numEntities r)"
        by (simp add: p1 Pool_Resize_def)
      with True show ?thesis
        by (simp add: k_def p1 Pool_Resize_def vector_resize_grow)
    next
      case False
      then show ?thesis by (simp add: k_def p1)
    qed
    then have "length p1 = length p0 + k" by simp
    then show "Pool_GetSize p0 \<le> e \<longrightarrow> length p0 + k = unat (numEntities r)"
      by (auto simp: p1 Pool_Resize_def)
  qed
  have lp1: "length p1 = length p0 + k" by (simp add: grow)
  have final: "componentPools r' = pools[unat cid := Some ((p0 @ replicate k d)[unat e := v])]"
    by (simp add: r' grow)
  have T: "ids g' T = Some cid" by (rule GetId_ids_self [OF h])
  show "\<exists>cid p0 k.
      ids g' T = Some cid \<and>
      p0 = (if unat cid < length (componentPools r)
            then (case componentPools r ! unat cid of None \<Rightarrow> Pool_new d | Some p \<Rightarrow> p)
            else Pool_new d) \<and>
      unat cid < length (componentPools r') \<and>
      componentPools r' ! unat cid = Some ((p0 @ replicate k d)[unat e := v]) \<and>
      unat e < length p0 + k \<and>
      (Pool_GetSize p0 \<le> e \<longrightarrow> length p0 + k = unat (numEntities r)) \<and>
      (\<not> Pool_GetSize p0 \<le> e \<longrightarrow> k = 0) \<and>
      length (componentPools r) \<le> length (componentPools r') \<and>
      (\<forall>c < length (componentPools r). c \<noteq> unat cid \<longrightarrow>
         componentPools r' ! c = componentPools r ! c)"
  proof (intro exI conjI)
    show "ids g' T = Some cid" by (rule T)
    show "p0 = (if unat cid < length (componentPools r)
            then (case componentPools r ! unat cid of None \<Rightarrow> Pool_new d | Some p \<Rightarrow> p)
            else Pool_new d)" by (rule p0')
    show "unat cid < length (componentPools r')" using 1 by (simp add: final)
    show "componentPools r' ! unat cid = Some ((p0 @ replicate k d)[unat e := v])"
      using 1 by (simp add: final)
    show "unat e < length p0 + k" using 2 lp1 by simp
    show "Pool_GetSize p0 \<le> e \<longrightarrow> length p0 + k = unat (numEntities r)" by (rule k(1))
    show "\<not> Pool_GetSize p0 \<le> e \<longrightarrow> k = 0" by (rule k(2))
    show "length (componentPools r) \<le> length (componentPools r')" using len by (simp add: final)
    show "\<forall>c < length (componentPools r). c \<noteq> unat cid \<longrightarrow>
         componentPools r' ! c = componentPools r ! c"
      using old by (simp add: final)
  qed
  show "pools_ok r'"
    unfolding pools_ok_def
  proof (intro allI impI)
    fix p assume "Some p \<in> set (componentPools r')"
    then have "Some p \<in> insert (Some ((p0 @ replicate k d)[unat e := v])) (set pools)"
      using set_update_subset_insert [of pools "unat cid"] by (auto simp: final)
    moreover have "set pools \<subseteq> insert None (set (componentPools r))"
      by (subst ext) auto
    ultimately have "p = (p0 @ replicate k d)[unat e := v] \<or> Some p \<in> set (componentPools r)"
      by auto
    moreover have "length p0 + k < 2 ^ 32"
    proof (cases "Pool_GetSize p0 \<le> e")
      case True
      with k(1) have "length p0 + k = unat (numEntities r)" by simp
      also have "\<dots> < 2 ^ 32" using unsigned_less [of "numEntities r"] by simp
      finally show ?thesis .
    next
      case False
      with k(2) small show ?thesis by simp
    qed
    ultimately show "length p < 2 ^ 32" using ok by (auto simp: pools_ok_def)
  qed
  show "pools_grow r r'"
    unfolding pools_grow_def
  proof (intro conjI allI impI)
    show "length (componentPools r) \<le> length (componentPools r')" using len by (simp add: final)
    fix c p assume a: "c < length (componentPools r) \<and> componentPools r ! c = Some p"
    show "\<exists>q. componentPools r' ! c = Some q \<and> length p \<le> length q"
    proof (cases "c = unat cid")
      case True
      with a p0' have "p0 = p" by simp
      with True 1 show ?thesis by (simp add: final)
    next
      case False
      with a old [of c] len show ?thesis by (simp add: final)
    qed
  qed
qed

lemma Update_pools: "Update r = Inr r' \<Longrightarrow> componentPools r' = componentPools r"
  by (drule Update_frame(4)) (metis Registry.select_convs(4) Registry.surjective Registry.update_convs(2,3,6))

lemma AddEntityToSystems_pools:
  "AddEntityToSystems e r = Inr r' \<Longrightarrow> componentPools r' = componentPools r"
  by (erule AddEntityToSystems_InrE) simp

lemma RemoveComponent_pools:
  "RemoveComponent T e g r = Inr (g', r') \<Longrightarrow> componentPools r' = componentPools r"
  by (erule RemoveComponent_InrE) simp

lemma RemoveComponent_ids:
  "RemoveComponent T e g r = Inr (g', r') \<Longrightarrow> ids g U = Some j \<Longrightarrow> ids g' U = Some j"
  by (erule RemoveComponent_InrE) (rule GetId_ids_mono)

lemma AddComponent_ids:
  "AddComponent T d e v g r = Inr (g', r') \<Longrightarrow> ids g U = Some j \<Longrightarrow> ids g' U = Some j"
  by (erule AddComponent_InrE) (rule GetId_ids_mono)

lemma RequireComponents_ids:
  "RequireComponents Ts g s = Inr (g', s') \<Longrightarrow> ids g U = Some j \<Longrightarrow> ids g' U = Some j"
  by (drule RequireComponents_bits) blast

text \<open>One operation: pools stay within \<^verbatim>\<open>unsigned int\<close>, none shrinks, no id changes.\<close>

lemma apply_operation_pools:
  assumes "apply_operation x (g, r) = Inr (g', r')" and "pools_ok r"
  shows "pools_ok r' \<and> pools_grow r r' \<and> (\<forall>U j. ids g U = Some j \<longrightarrow> ids g' U = Some j)"
proof (cases x)
  case CreateEntityOp
  with assms(1) have "componentPools r' = componentPools r" "g' = g"
    by (auto simp: CreateEntity_def Let_def)
  with assms(2) show ?thesis by (simp add: pools_grow_same pools_ok_same)
next
  case (AddComponentOp T d e v)
  with assms(1) have a: "AddComponent T d e v g r = Inr (g', r')" by simp
  from AddComponent_pools(2,3) [OF assms(2) a] AddComponent_ids [OF a]
  show ?thesis by blast
next
  case (RemoveComponentOp T e)
  with assms(1) have a: "RemoveComponent T e g r = Inr (g', r')" by simp
  from RemoveComponent_pools [OF a] RemoveComponent_ids [OF a] assms(2)
  show ?thesis by (simp add: pools_grow_same pools_ok_same)
next
  case (AddSystemOp K Ts)
  with assms(1) obtain s where a: "RequireComponents Ts g System_default = Inr (g', s)"
    and b: "r' = AddSystem K s r"
    by (auto split: sum.splits)
  from b have "componentPools r' = componentPools r"
    by (simp add: AddSystem_def split: option.splits)
  with RequireComponents_ids [OF a] assms(2)
  show ?thesis by (simp add: pools_grow_same pools_ok_same)
next
  case (RemoveSystemOp K)
  with assms(1) have "componentPools r' = componentPools r" "g' = g"
    by (auto simp: RemoveSystem_def split: sum.splits option.splits)
  with assms(2) show ?thesis by (simp add: pools_grow_same pools_ok_same)
next
  case (KillEntityOp e)
  with assms(1) have "componentPools r' = componentPools r" "g' = g"
    by (auto simp: KillEntity_def)
  with assms(2) show ?thesis by (simp add: pools_grow_same pools_ok_same)
next
  case (AddEntityToSystemsOp e)
  with assms(1) have "componentPools r' = componentPools r" "g' = g"
    by (auto split: sum.splits dest: AddEntityToSystems_pools)
  with assms(2) show ?thesis by (simp add: pools_grow_same pools_ok_same)
next
  case UpdateOp
  with assms(1) have "componentPools r' = componentPools r" "g' = g"
    by (auto split: sum.splits dest: Update_pools)
  with assms(2) show ?thesis by (simp add: pools_grow_same pools_ok_same)
qed

lemma run_pools:
  "run xs (g, r) = Inr (g', r') \<Longrightarrow> pools_ok r \<Longrightarrow>
   pools_ok r' \<and> pools_grow r r' \<and> (\<forall>U j. ids g U = Some j \<longrightarrow> ids g' U = Some j)"
proof (induction xs arbitrary: g r)
  case Nil
  then show ?case by (simp add: pools_grow_refl)
next
  case (Cons x xs)
  then obtain g1 r1 where 1: "apply_operation x (g, r) = Inr (g1, r1)"
    and 2: "run xs (g1, r1) = Inr (g', r')"
    by (auto split: sum.splits)
  from apply_operation_pools [OF 1 Cons.prems(2)] have
    s: "pools_ok r1" "pools_grow r r1" "\<forall>U j. ids g U = Some j \<longrightarrow> ids g1 U = Some j"
    by simp_all
  from Cons.IH [OF 2 s(1)] have
    t: "pools_ok r'" "pools_grow r1 r'" "\<forall>U j. ids g1 U = Some j \<longrightarrow> ids g' U = Some j"
    by simp_all
  from s t pools_grow_trans [OF s(2) t(2)] show ?case by blast
qed

lemma run_append:
  "run (xs @ ys) st = (case run xs st of Inl err \<Rightarrow> Inl err | Inr st' \<Rightarrow> run ys st')"
  by (induction xs arbitrary: st) (auto split: sum.splits)

lemma run_split:
  assumes "run (xs @ ys) st = Inr st'"
  obtains st1 where "run xs st = Inr st1" "run ys st1 = Inr st'"
  using assms by (auto simp: run_append split: sum.splits)

lemma pools_ok_new: "pools_ok Registry_new"
  by (simp add: pools_ok_def Registry_new_def)

lemma run_prefix_pools:
  assumes "run xs (initial_ids, Registry_new) = Inr (g, r)" and "n \<le> length xs"
  shows "\<exists>g1 r1. run (take n xs) (initial_ids, Registry_new) = Inr (g1, r1) \<and> pools_grow r1 r"
proof -
  from assms(1) have "run (take n xs @ drop n xs) (initial_ids, Registry_new) = Inr (g, r)"
    by simp
  then obtain st1 where 1: "run (take n xs) (initial_ids, Registry_new) = Inr st1"
    and 2: "run (drop n xs) st1 = Inr (g, r)"
    by (rule run_split)
  obtain g1 r1 where st1: "st1 = (g1, r1)" by (cases st1)
  from run_pools [OF 1 [unfolded st1] pools_ok_new] have "pools_ok r1" by simp
  from run_pools [OF 2 [unfolded st1] this] have "pools_grow r1 r" by simp
  with 1 st1 show ?thesis by blast
qed

lemma run_written_slot:
  assumes "run xs (initial_ids, Registry_new) = Inr (g, r)"
    and "AddComponentOp T d e v \<in> set xs"
  shows "\<exists>cid p. ids g T = Some cid \<and> unat cid < length (componentPools r) \<and>
           componentPools r ! unat cid = Some p \<and> unat e < length p"
proof -
  from assms(2) obtain ys zs where xs: "xs = ys @ AddComponentOp T d e v # zs"
    by (auto dest: split_list)
  from assms(1) [unfolded xs] obtain st1 where 1: "run ys (initial_ids, Registry_new) = Inr st1"
    and 2: "run (AddComponentOp T d e v # zs) st1 = Inr (g, r)"
    by (rule run_split)
  obtain g1 r1 where st1: "st1 = (g1, r1)" by (cases st1)
  from 2 obtain g2 r2 where 3: "AddComponent T d e v g1 r1 = Inr (g2, r2)"
    and 4: "run zs (g2, r2) = Inr (g, r)"
    by (auto simp: st1 split: sum.splits)
  from run_pools [OF 1 [unfolded st1] pools_ok_new] have ok1: "pools_ok r1" by simp
  from AddComponent_pools(1) [OF ok1 3] obtain cid q where
    q: "ids g2 T = Some cid" "unat cid < length (componentPools r2)"
      "componentPools r2 ! unat cid = Some q" "unat e < length q"
    by fastforce
  from run_pools [OF 4 AddComponent_pools(2) [OF ok1 3]] have
    gr: "pools_grow r2 r" and mono: "\<forall>U j. ids g2 U = Some j \<longrightarrow> ids g U = Some j"
    by simp_all
  from gr q(2,3) obtain p where "componentPools r ! unat cid = Some p" "length q \<le> length p"
    "unat cid < length (componentPools r)"
    unfolding pools_grow_def by (metis less_le_trans)
  with q(1,4) mono show ?thesis by (metis less_le_trans)
qed

text \<open>\<open>AddComponent\<close> goes on from the pool of \<open>AddComponent_resized\<close>.\<close>

lemma AddComponent_after_resize:
  "AddComponent T d e v g r =
     (case AddComponent_resized T d e g r of
        Inl err \<Rightarrow> Inl err
      | Inr p \<Rightarrow>
          (case Pool_Set e v p of
             Inl err \<Rightarrow> Inl err
           | Inr p' \<Rightarrow>
               if length (entityComponentSignatures r) \<le> unat e then Inl UndefinedBehaviour
               else
                 (case bitset_set (unat (fst (GetId T g))) True
                         (entityComponentSignatures r ! unat e) of
                    Inl err \<Rightarrow> Inl err
                  | Inr sg \<Rightarrow>
                      Inr (snd (GetId T g),
                           r\<lparr>componentPools :=
                               (if length (componentPools r) \<le> unat (fst (GetId T g))
                                then vector_resize (unat (fst (GetId T g) + 1)) None (componentPools r)
                                else componentPools r)[unat (fst (GetId T g)) := Some p'],
                             entityComponentSignatures :=
                               (entityComponentSignatures r)[unat e := sg]\<rparr>))))"
  by (cases "GetId T g")
    (auto simp: AddComponent_def AddComponent_resized_def Let_def split: sum.splits)

lemma Pool_Resize_length: "length (Pool_Resize d n p) = unat n"
  by (simp add: Pool_Resize_def)

lemma Pool_Resize_grow:
  "length p \<le> unat n \<Longrightarrow> Pool_Resize d n p = p @ replicate (unat n - length p) d"
  by (simp add: Pool_Resize_def vector_resize_grow)

lemma Pool_Resize_cut: "unat n \<le> length p \<Longrightarrow> Pool_Resize d n p = take (unat n) p"
  by (simp add: Pool_Resize_def vector_resize_def)

lemma AddComponent_resized_valid:
  assumes ok: "pools_ok r" and valid: "entity_valid e r"
    and id: "unat (fst (GetId T g)) < MAX_COMPONENTS"
  shows "\<exists>p0 p. AddComponent_resized T d e g r = Inr p \<and>
           p0 = (if unat (fst (GetId T g)) < length (componentPools r)
                 then (case componentPools r ! unat (fst (GetId T g)) of
                         None \<Rightarrow> Pool_new d | Some q \<Rightarrow> q)
                 else Pool_new d) \<and>
           p = p0 @ replicate (length p - length p0) d \<and> unat e < length p \<and>
           (Pool_GetSize p0 \<le> e \<longrightarrow> length p = unat (numEntities r)) \<and>
           (\<not> Pool_GetSize p0 \<le> e \<longrightarrow> p = p0)"
proof -
  obtain cid g1 where h: "GetId T g = (cid, g1)" by (cases "GetId T g")
  with id have c: "unat cid < MAX_COMPONENTS" by simp
  then have "unat cid + 1 < 2 ^ 32" by (simp add: MAX_COMPONENTS_def)
  then have suc: "unat (cid + 1) = unat cid + 1" by (simp add: unat_word_ariths)
  define pools where "pools = (if length (componentPools r) \<le> unat cid
              then vector_resize (unat (cid + 1)) None (componentPools r)
              else componentPools r)"
  define p0 where "p0 = (case pools ! unat cid of None \<Rightarrow> Pool_new d | Some q \<Rightarrow> q)"
  define p where "p = (if Pool_GetSize p0 \<le> e then Pool_Resize d (numEntities r) p0 else p0)"
  have 1: "unat cid < length pools" by (simp add: pools_def suc)
  have res: "AddComponent_resized T d e g r = Inr p"
    unfolding AddComponent_resized_def h Let_def prod.case pools_def [symmetric]
      p0_def [symmetric] p_def [symmetric] using 1 by simp
  have p0': "p0 = (if unat cid < length (componentPools r)
                 then (case componentPools r ! unat cid of None \<Rightarrow> Pool_new d | Some q \<Rightarrow> q)
                 else Pool_new d)"
    by (auto simp: p0_def pools_def suc vector_resize_def nth_append)
  have small: "length p0 < 2 ^ 32"
  proof (cases "unat cid < length (componentPools r)")
    case True
    show ?thesis
    proof (cases "componentPools r ! unat cid")
      case None
      with True show ?thesis by (simp add: p0')
    next
      case (Some q)
      with True have "Some q \<in> set (componentPools r)" by (metis nth_mem)
      with ok Some True show ?thesis by (simp add: pools_ok_def p0')
    qed
  next
    case False
    then show ?thesis by (simp add: p0')
  qed
  from valid have v: "unat e < unat (numEntities r)"
    by (simp add: entity_valid_def word_less_nat_alt)
  have grow: "p = p0 @ replicate (length p - length p0) d" and in_range: "unat e < length p"
  proof -
    show "p = p0 @ replicate (length p - length p0) d"
    proof (cases "Pool_GetSize p0 \<le> e")
      case True
      then have "length p0 \<le> unat e"
        using unat_GetSize [OF small] by (simp add: word_le_nat_alt)
      with v have "length p0 \<le> unat (numEntities r)" by simp
      with True show ?thesis by (simp add: p_def Pool_Resize_grow Pool_Resize_length)
    next
      case False
      then show ?thesis by (simp add: p_def)
    qed
    show "unat e < length p"
      using v unat_less_GetSize [of p0 e] by (simp add: p_def Pool_Resize_length)
  qed
  have a: "Pool_GetSize p0 \<le> e \<longrightarrow> length p = unat (numEntities r)"
    by (simp add: p_def Pool_Resize_length)
  have b: "\<not> Pool_GetSize p0 \<le> e \<longrightarrow> p = p0" by (simp add: p_def)
  show ?thesis
    unfolding h fst_conv
    by (intro exI [of _ p0] exI [of _ p] conjI) (rule res p0' grow in_range a b)+
qed

lemma run_creates:
  "numEntities r0 = of_nat m \<Longrightarrow> length (entityComponentSignatures r0) = m \<Longrightarrow>
   componentPools r0 = [] \<Longrightarrow> m + n < 2 ^ 32 \<Longrightarrow>
   \<exists>r. run (replicate n CreateEntityOp) (g, r0) = Inr (g, r) \<and> numEntities r = of_nat (m + n) \<and>
       length (entityComponentSignatures r) = m + n \<and> componentPools r = []"
proof (induction n arbitrary: r0 m)
  case 0
  then show ?case by simp
next
  case (Suc n)
  define r1 where "r1 = snd (CreateEntity r0)"
  from Suc.prems(4) have m: "unat (of_nat m :: uint) = m" by (simp add: unat_of_nat)
  have 1: "numEntities r1 = of_nat (Suc m)"
    by (simp add: r1_def CreateEntity_def Let_def Suc.prems(1))
  have 2: "length (entityComponentSignatures r1) = Suc m"
    by (simp add: r1_def CreateEntity_def Let_def Suc.prems(1,2) m)
  have 3: "componentPools r1 = []"
    by (simp add: r1_def CreateEntity_def Let_def Suc.prems(3))
  from Suc.prems(4) have 4: "Suc m + n < 2 ^ 32" by simp
  from Suc.IH [OF 1 2 3 4] show ?case by (simp add: r1_def)
qed

text \<open>
  C7, as the claim states it, fails: \<^verbatim>\<open>Pool::Resize(n)\<close> sets the size to \<open>n\<close>, whatever
  the size was, so a pool of 150 slots resized to 3 has 3. And \<^verbatim>\<open>AddComponent\<close> does call
  it that way: after one entity has been created and given kind 0, the pool of kind 0 has
  100 slots; \<^verbatim>\<open>AddComponent\<close> of kind 0 on the entity handle with id 100, which the
  registry never created, finds \<open>100 >= GetSize()\<close>, resizes the pool to
  \<open>numEntities = 1\<close> slot, and then writes slot 100 out of bounds.
\<close>

theorem Resize_shrinks_counterexample:
  "length (Pool_Resize (0 :: nat) 3 (replicate 150 0)) = 3 \<and>
   (case run [CreateEntityOp, AddComponentOp 0 0 0 (42 :: nat)] (initial_ids, Registry_new) of
      Inl err \<Rightarrow> False
    | Inr (g, r) \<Rightarrow>
        numEntities r = 1 \<and>
        map_option length (componentPools r ! 0) = Some 100 \<and>
        map_sum id length (AddComponent_resized 0 0 100 g r) = Inr 1 \<and>
        AddComponent 0 0 100 7 g r = Inl UndefinedBehaviour)"
  by (simp add: eval_defs AddComponent_resized_def)

text \<open>
  C7, amended. \<^verbatim>\<open>Pool::Resize(n)\<close> brings the size to exactly \<open>n\<close>: it appends default
  values to a shorter pool, keeping what it holds, and cuts a longer one. As called by
  \<^verbatim>\<open>AddComponent\<close> on an entity with a valid id (for a kind whose id fits a signature)
  it only ever extends: the call completes, the pool it found (or the fresh pool of 100
  slots) is kept as a prefix, the size is the requested \<^verbatim>\<open>numEntities\<close> where \<^verbatim>\<open>Resize\<close>
  is called and unchanged otherwise, and it exceeds the entity's id. After the write the
  pool of the kind is that pool overwritten at the entity's slot only, and the other
  pools are untouched. Consequently, along every run of registry operations that
  complete, from a fresh registry, no pool disappears or becomes shorter, and every
  entity id written by an \<^verbatim>\<open>AddComponent\<close> of the run is below the size of its kind's
  pool at the end.
\<close>

theorem pools_grow_for_valid_entities:
  "(run xs (initial_ids, Registry_new) = Inr (g, r) \<longrightarrow>
      (\<forall>n \<le> length xs. \<exists>g1 r1.
          run (take n xs) (initial_ids, Registry_new) = Inr (g1, r1) \<and> pools_grow r1 r) \<and>
      (\<forall>T d e v. AddComponentOp T d e v \<in> set xs \<longrightarrow>
          (\<exists>cid p. ids g T = Some cid \<and> unat cid < length (componentPools r) \<and>
                   componentPools r ! unat cid = Some p \<and> unat e < length p))) \<and>
   (run xs (initial_ids, Registry_new) = Inr (g, r) \<and>
    AddComponent T d e v g r = Inr (g', r') \<longrightarrow>
      (\<exists>cid p0 k.
          ids g' T = Some cid \<and>
          p0 = (if unat cid < length (componentPools r)
                then (case componentPools r ! unat cid of None \<Rightarrow> Pool_new d | Some p \<Rightarrow> p)
                else Pool_new d) \<and>
          unat cid < length (componentPools r') \<and>
          componentPools r' ! unat cid = Some ((p0 @ replicate k d)[unat e := v]) \<and>
          unat e < length p0 + k \<and>
          (Pool_GetSize p0 \<le> e \<longrightarrow> length p0 + k = unat (numEntities r)) \<and>
          (\<not> Pool_GetSize p0 \<le> e \<longrightarrow> k = 0) \<and>
          length (componentPools r) \<le> length (componentPools r') \<and>
          (\<forall>c < length (componentPools r). c \<noteq> unat cid \<longrightarrow>
             componentPools r' ! c = componentPools r ! c))) \<and>
   (entity_valid e r \<and> unat (fst (GetId T g)) < MAX_COMPONENTS \<longrightarrow>
      (\<exists>g1 r1. AddComponent T d e v g r = Inr (g1, r1))) \<and>
   (run xs (initial_ids, Registry_new) = Inr (g, r) \<and> entity_valid e r \<and>
    unat (fst (GetId T g)) < MAX_COMPONENTS \<longrightarrow>
      (\<exists>p0 p. AddComponent_resized T d e g r = Inr p \<and>
           p0 = (if unat (fst (GetId T g)) < length (componentPools r)
                 then (case componentPools r ! unat (fst (GetId T g)) of
                         None \<Rightarrow> Pool_new d | Some q \<Rightarrow> q)
                 else Pool_new d) \<and>
           p = p0 @ replicate (length p - length p0) d \<and> unat e < length p \<and>
           (Pool_GetSize p0 \<le> e \<longrightarrow> length p = unat (numEntities r)) \<and>
           (\<not> Pool_GetSize p0 \<le> e \<longrightarrow> p = p0))) \<and>
   length (Pool_Resize d n q) = unat n \<and>
   (length q \<le> unat n \<longrightarrow> Pool_Resize d n q = q @ replicate (unat n - length q) d) \<and>
   (unat n \<le> length q \<longrightarrow> Pool_Resize d n q = take (unat n) q)"
proof (intro conjI impI allI)
  fix n assume "run xs (initial_ids, Registry_new) = Inr (g, r)" and "n \<le> length xs"
  then show "\<exists>g1 r1. run (take n xs) (initial_ids, Registry_new) = Inr (g1, r1) \<and> pools_grow r1 r"
    by (rule run_prefix_pools)
next
  fix T d e v
  assume "run xs (initial_ids, Registry_new) = Inr (g, r)" and "AddComponentOp T d e v \<in> set xs"
  then show "\<exists>cid p. ids g T = Some cid \<and> unat cid < length (componentPools r) \<and>
                   componentPools r ! unat cid = Some p \<and> unat e < length p"
    by (rule run_written_slot)
next
  assume a: "run xs (initial_ids, Registry_new) = Inr (g, r) \<and>
    AddComponent T d e v g r = Inr (g', r')"
  from run_pools [OF a [THEN conjunct1] pools_ok_new] have "pools_ok r" by simp
  from AddComponent_pools(1) [OF this a [THEN conjunct2]]
  show "\<exists>cid p0 k.
          ids g' T = Some cid \<and>
          p0 = (if unat cid < length (componentPools r)
                then (case componentPools r ! unat cid of None \<Rightarrow> Pool_new d | Some p \<Rightarrow> p)
                else Pool_new d) \<and>
          unat cid < length (componentPools r') \<and>
          componentPools r' ! unat cid = Some ((p0 @ replicate k d)[unat e := v]) \<and>
          unat e < length p0 + k \<and>
          (Pool_GetSize p0 \<le> e \<longrightarrow> length p0 + k = unat (numEntities r)) \<and>
          (\<not> Pool_GetSize p0 \<le> e \<longrightarrow> k = 0) \<and>
          length (componentPools r) \<le> length (componentPools r') \<and>
          (\<forall>c < length (componentPools r). c \<noteq> unat cid \<longrightarrow>
             componentPools r' ! c = componentPools r ! c)" .
next
  assume "entity_valid e r \<and> unat (fst (GetId T g)) < MAX_COMPONENTS"
  then show "\<exists>g1 r1. AddComponent T d e v g r = Inr (g1, r1)"
    by (intro AddComponent_returns) simp_all
next
  assume a: "run xs (initial_ids, Registry_new) = Inr (g, r) \<and> entity_valid e r \<and>
    unat (fst (GetId T g)) < MAX_COMPONENTS"
  from run_pools [OF a [THEN conjunct1] pools_ok_new] have "pools_ok r" by simp
  from AddComponent_resized_valid [OF this a [THEN conjunct2, THEN conjunct1]
      a [THEN conjunct2, THEN conjunct2]]
  show "\<exists>p0 p. AddComponent_resized T d e g r = Inr p \<and>
           p0 = (if unat (fst (GetId T g)) < length (componentPools r)
                 then (case componentPools r ! unat (fst (GetId T g)) of
                         None \<Rightarrow> Pool_new d | Some q \<Rightarrow> q)
                 else Pool_new d) \<and>
           p = p0 @ replicate (length p - length p0) d \<and> unat e < length p \<and>
           (Pool_GetSize p0 \<le> e \<longrightarrow> length p = unat (numEntities r)) \<and>
           (\<not> Pool_GetSize p0 \<le> e \<longrightarrow> p = p0)" .
next
  show "length (Pool_Resize d n q) = unat n" by (rule Pool_Resize_length)
next
  assume "length q \<le> unat n"
  then show "Pool_Resize d n q = q @ replicate (unat n - length q) d" by (rule Pool_Resize_grow)
next
  assume "unat n \<le> length q"
  then show "Pool_Resize d n q = take (unat n) q" by (rule Pool_Resize_cut)
qed

theorem pools_grow_for_valid_entities_witness:
  "\<exists>g r g' r' p q0 q.
     run (replicate 101 CreateEntityOp @ [AddComponentOp 0 0 0 (42 :: nat)])
       (initial_ids, Registry_new) = Inr (g, r) \<and>
     componentPools r ! 0 = Some q0 \<and> length q0 = 100 \<and>
     AddComponent_resized 0 0 100 g r = Inr p \<and> length p = 101 \<and>
     AddComponent 0 0 100 7 g r = Inr (g', r') \<and>
     componentPools r' ! 0 = Some q \<and> length q = 101 \<and> q ! 0 = 42 \<and> q ! 100 = 7"
proof -
  have "\<exists>r1. run (replicate 101 CreateEntityOp) (initial_ids, Registry_new :: nat Registry) =
          Inr (initial_ids, r1) \<and>
        numEntities r1 = of_nat (0 + 101) \<and>
        length (entityComponentSignatures r1) = 0 + 101 \<and> componentPools r1 = []"
    by (rule run_creates) (simp_all add: Registry_new_def)
  then obtain r1 :: "nat Registry" where
    c: "run (replicate 101 CreateEntityOp) (initial_ids, Registry_new) = Inr (initial_ids, r1)"
    and n1: "numEntities r1 = 101" and l1: "length (entityComponentSignatures r1) = 101"
    and p1: "componentPools r1 = []"
    by auto
  have "\<exists>g r. AddComponent 0 0 0 (42 :: nat) initial_ids r1 = Inr (g, r) \<and>
          numEntities r = 101 \<and> length (entityComponentSignatures r) = 101 \<and>
          ids g 0 = Some 0 \<and> componentPools r = [Some ((replicate 100 0)[0 := 42])]"
    by (simp add: eval_defs n1 l1 p1)
  then obtain g r where a0: "AddComponent 0 0 0 (42 :: nat) initial_ids r1 = Inr (g, r)"
    and n: "numEntities r = 101" and l: "length (entityComponentSignatures r) = 101"
    and i: "ids g 0 = Some 0"
    and p: "componentPools r = [Some ((replicate 100 0)[0 := 42])]"
    by blast
  have run: "run (replicate 101 CreateEntityOp @ [AddComponentOp 0 0 0 (42 :: nat)])
       (initial_ids, Registry_new) = Inr (g, r)"
    by (simp add: run_append c a0)
  have q0: "componentPools r ! 0 = Some ((replicate 100 0)[0 := 42])" by (simp add: p)
  have lq0: "length ((replicate 100 (0 :: nat))[0 := 42]) = 100" by simp
  have valid: "entity_valid 100 r" by (simp add: entity_valid_def n l)
  have id: "unat (fst (GetId 0 g)) < MAX_COMPONENTS"
    by (simp add: GetId_def i MAX_COMPONENTS_def)
  have size: "Pool_GetSize ((replicate 100 (0 :: nat))[0 := 42]) \<le> (100 :: Entity)"
    by (simp add: Pool_GetSize_def)
  note t = pools_grow_for_valid_entities [where xs = "replicate 101 CreateEntityOp @ [AddComponentOp 0 0 0 42]"
      and g = g and r = r and T = 0 and d = 0 and e = 100 and v = 7]
  from t [THEN conjunct2, THEN conjunct2, THEN conjunct1] valid id
  obtain g' r' where a: "AddComponent 0 0 100 7 g r = Inr (g', r')" by blast
  from t [THEN conjunct2, THEN conjunct2, THEN conjunct2, THEN conjunct1, rule_format,
      OF conjI [OF run conjI [OF valid id]]]
  obtain p0 pr where res: "AddComponent_resized 0 0 100 g r = Inr pr"
    and p0: "p0 = (if unat (fst (GetId 0 g)) < length (componentPools r)
                 then (case componentPools r ! unat (fst (GetId 0 g)) of
                         None \<Rightarrow> Pool_new 0 | Some q \<Rightarrow> q)
                 else Pool_new 0)"
    and "Pool_GetSize p0 \<le> 100 \<longrightarrow> length pr = unat (numEntities r)"
    by blast
  then have lpr: "length pr = 101" using size by (simp add: GetId_def i p n)
  from t [where g' = g' and r' = r', THEN conjunct2, THEN conjunct1, rule_format, OF conjI [OF run a]]
  obtain cid p0' k where cid: "ids g' 0 = Some cid"
    and p0': "p0' = (if unat cid < length (componentPools r)
                then (case componentPools r ! unat cid of None \<Rightarrow> Pool_new 0 | Some p \<Rightarrow> p)
                else Pool_new 0)"
    and q: "componentPools r' ! unat cid = Some ((p0' @ replicate k 0)[unat (100 :: Entity) := 7])"
    and k: "Pool_GetSize p0' \<le> 100 \<longrightarrow> length p0' + k = unat (numEntities r)"
    by blast
  from AddComponent_ids [OF a i] cid have c0: "cid = 0" by simp
  with p0' have p0'': "p0' = (replicate 100 0)[0 := 42]" by (simp add: p)
  with k size have k1: "k = 1" by (simp add: n)
  from q have q': "componentPools r' ! 0 =
      Some ((((replicate 100 0)[0 := 42]) @ [0])[100 := 7])"
    by (simp add: c0 p0'' k1)
  have lq: "length ((((replicate 100 (0 :: nat))[0 := 42]) @ [0])[100 := 7]) = 101" by simp
  have v0: "((((replicate 100 (0 :: nat))[0 := 42]) @ [0])[100 := 7]) ! 0 = 42"
    by (simp add: nth_append)
  have v100: "((((replicate 100 (0 :: nat))[0 := 42]) @ [0])[100 := 7]) ! 100 = 7"
    by (simp add: nth_list_update)
  show ?thesis
    by (intro exI conjI) (rule run q0 lq0 res lpr a q' lq v0 v100)+
qed

end
